theory Spec2Isabelle
  imports Complex_Main "HOL-Library.Multiset" "HOL-Library.AList"
begin

section \<open>Git Gladiators: the statistics and scoring pipeline\<close>

text \<open>
  A shallow embedding of the contributor pipeline of the extension:
  \<^item> \<^verbatim>\<open>popup.js\<close>: \<^verbatim>\<open>calculateScore\<close>, \<^verbatim>\<open>assignTitle\<close>, \<^verbatim>\<open>getPeriodCutoff\<close>,
    \<^verbatim>\<open>processContributors\<close>;
  \<^item> \<^verbatim>\<open>background.js\<close> (the second, current version of the file):
    \<^verbatim>\<open>getWeekStartTimestamp\<close>, the merge and the qualification filter of
    \<^verbatim>\<open>fetchContributorStats\<close>, and \<^verbatim>\<open>fillDiffStats\<close>.

  Counters (commits, additions, deletions) are non-negative integers and are modelled as
  \<open>nat\<close>; timestamps are integers. JavaScript numbers are IEEE doubles: integer
  arithmetic on them is exact below \<open>2 ^ 53\<close>, and the arithmetic of the scoring
  functions is modelled over the reals (\<open>Math.log10\<close> is the real logarithm to base 10,
  \<open>Math.round\<close> is \<open>round\<close>, which rounds half up as JavaScript does). A value that
  may be missing (\<^verbatim>\<open>undefined\<close> or \<^verbatim>\<open>null\<close>) is an option. The network is a
  parameter: the functions that fetch take the outcomes of their requests as arguments.
\<close>

subsection \<open>Scoring (popup.js, SCORING_CONFIG and calculateScore)\<close>

definition commitWeight :: real where
  "commitWeight = 0.4"

definition additionsWeight :: real where
  "additionsWeight = 0.35"

definition deletionsWeight :: real where
  "deletionsWeight = 0.25"

definition linesPerCommitBaseline :: real where
  "linesPerCommitBaseline = 50"

definition log10 :: "real \<Rightarrow> real" where
  "log10 x = log 10 x"

text \<open>The two local constants of \<^verbatim>\<open>calculateScore\<close> that the claims name.\<close>

definition avgLinesPerCommit :: "nat \<Rightarrow> nat \<Rightarrow> nat \<Rightarrow> real" where
  "avgLinesPerCommit commits additions deletions =
     (if commits > 0 then (real additions + real deletions) / real commits else 0)"

definition balanceBonus :: "nat \<Rightarrow> nat \<Rightarrow> nat \<Rightarrow> real" where
  "balanceBonus commits additions deletions =
     (let avg = avgLinesPerCommit commits additions deletions in
      if avg > 0 \<and> avg \<le> linesPerCommitBaseline * 2
      then min 10 (10 * (1 - \<bar>avg - linesPerCommitBaseline\<bar> / linesPerCommitBaseline))
      else 0)"

text \<open>The sum that \<^verbatim>\<open>calculateScore\<close> rounds to one decimal place.\<close>

definition rawScore :: "nat \<Rightarrow> nat \<Rightarrow> nat \<Rightarrow> real" where
  "rawScore commits additions deletions =
     (let logCommits = log10 (real commits + 1) * 100;
          logAdditions = log10 (real additions + 1) * 10;
          logDeletions = log10 (real deletions + 1) * 10;
          commitScore = logCommits * commitWeight;
          additionScore = logAdditions * additionsWeight;
          deletionScore = logDeletions * deletionsWeight
      in commitScore + additionScore + deletionScore
           + balanceBonus commits additions deletions)"

definition calculateScore :: "nat \<Rightarrow> nat \<Rightarrow> nat \<Rightarrow> real" where
  "calculateScore commits additions deletions =
     real_of_int (round (rawScore commits additions deletions * 10)) / 10"

subsection \<open>Titles (popup.js, assignTitle)\<close>

text \<open>
  The titles are a closed set of string literals, each an emoji followed by the name given
  here; the colour is the hexadecimal string of the source.
\<close>

datatype title =
  CodeArchitect | TheCleaner | TsunamiCoder | RapidFire | NovelWriter | Veteran
  | Warrior | Defender | RisingStar | FreshBlood | Inactive

definition assignTitle :: "nat \<Rightarrow> nat \<Rightarrow> nat \<Rightarrow> title \<times> string" where
  "assignTitle commits additions deletions =
     (let total = additions + deletions;
          ratio = (if commits > 0 then real total / real commits else 0);
          deleteRatio = (if total > 0 then real deletions / real total else 0)
      in if commits \<ge> 500 then (CodeArchitect, ''#FFD700'')
         else if deleteRatio > 0.6 \<and> total > 100 then (TheCleaner, ''#9B59B6'')
         else if ratio > 500 then (TsunamiCoder, ''#3498DB'')
         else if ratio < 20 \<and> commits > 50 then (RapidFire, ''#E74C3C'')
         else if additions > 50000 then (NovelWriter, ''#2ECC71'')
         else if commits \<ge> 100 then (Veteran, ''#F39C12'')
         else if commits \<ge> 50 then (Warrior, ''#E67E22'')
         else if commits \<ge> 20 then (Defender, ''#1ABC9C'')
         else if commits \<ge> 10 then (RisingStar, ''#27AE60'')
         else if commits \<ge> 1 then (FreshBlood, ''#95A5A6'')
         else (Inactive, ''#666677''))"

text \<open>
  The rule table of the specification, in its order: the derived values \<open>total\<close>,
  \<open>ratio\<close> and \<open>deleteRatio\<close>, then the eleven rules, the last one matching
  everything. \<open>firstMatch\<close> returns the title of the first rule that holds.
\<close>

definition spec_total :: "nat \<Rightarrow> nat \<Rightarrow> nat" where
  "spec_total a d = a + d"

definition spec_ratio :: "nat \<Rightarrow> nat \<Rightarrow> nat \<Rightarrow> real" where
  "spec_ratio c a d = (if c > 0 then real (spec_total a d) / real c else 0)"

definition spec_deleteRatio :: "nat \<Rightarrow> nat \<Rightarrow> real" where
  "spec_deleteRatio a d = (if spec_total a d > 0 then real d / real (spec_total a d) else 0)"

definition titleRules :: "((nat \<Rightarrow> nat \<Rightarrow> nat \<Rightarrow> bool) \<times> (title \<times> string)) list" where
  "titleRules =
     [ (\<lambda>c a d. c \<ge> 500, (CodeArchitect, ''#FFD700'')),
       (\<lambda>c a d. spec_deleteRatio a d > 0.6 \<and> spec_total a d > 100, (TheCleaner, ''#9B59B6'')),
       (\<lambda>c a d. spec_ratio c a d > 500, (TsunamiCoder, ''#3498DB'')),
       (\<lambda>c a d. spec_ratio c a d < 20 \<and> c > 50, (RapidFire, ''#E74C3C'')),
       (\<lambda>c a d. a > 50000, (NovelWriter, ''#2ECC71'')),
       (\<lambda>c a d. c \<ge> 100, (Veteran, ''#F39C12'')),
       (\<lambda>c a d. c \<ge> 50, (Warrior, ''#E67E22'')),
       (\<lambda>c a d. c \<ge> 20, (Defender, ''#1ABC9C'')),
       (\<lambda>c a d. c \<ge> 10, (RisingStar, ''#27AE60'')),
       (\<lambda>c a d. c \<ge> 1, (FreshBlood, ''#95A5A6'')),
       (\<lambda>c a d. True, (Inactive, ''#666677'')) ]"

fun firstMatch ::
  "((nat \<Rightarrow> nat \<Rightarrow> nat \<Rightarrow> bool) \<times> 'r) list \<Rightarrow> nat \<Rightarrow> nat \<Rightarrow> nat \<Rightarrow> 'r option" where
  "firstMatch [] c a d = None"
| "firstMatch ((p, r) # rules) c a d = (if p c a d then Some r else firstMatch rules c a d)"

subsection \<open>Data model\<close>

text \<open>
  A week bucket \<^verbatim>\<open>{w, a, d, c}\<close> of the hosting API: week start in Unix seconds,
  additions, deletions, commits. A contributor record as \<^verbatim>\<open>fetchContributorStats\<close>
  builds it; \<open>totalCommits\<close> is present only on records that come from the summary
  list. An entry is one row of the leaderboard, as \<^verbatim>\<open>processContributors\<close> builds it;
  its \<open>rank\<close> is unset until the ranks are assigned. Two records cannot share a field
  name, so the fields \<^verbatim>\<open>w\<close>, \<^verbatim>\<open>a\<close>, \<^verbatim>\<open>d\<close>, \<^verbatim>\<open>c\<close> of a bucket and the fields
  \<^verbatim>\<open>login\<close>, \<^verbatim>\<open>avatar\<close>, \<^verbatim>\<open>profileUrl\<close> of an entry carry the name of their record.
\<close>

record week =
  week_w :: int
  week_a :: nat
  week_d :: nat
  week_c :: nat

record contributor =
  login :: string
  avatar :: string
  profileUrl :: string
  weeks :: "week list"
  totalCommits :: "nat option"

record entry =
  entry_login :: string
  entry_avatar :: string
  entry_profileUrl :: string
  commits :: nat
  additions :: nat
  deletions :: nat
  score :: real
  title :: title
  color :: string
  rank :: "nat option"

subsection \<open>Period aggregation, ranking (popup.js, getPeriodCutoff and processContributors)\<close>

text \<open>
  \<open>now\<close> is the value of \<^verbatim>\<open>Date.now()\<close> at the call, in milliseconds. The division of
  the cutoff by 1000 is exact over the reals; week starts are whole seconds.
\<close>

definition weekMs :: int where
  "weekMs = 7 * 24 * 60 * 60 * 1000"

definition getPeriodCutoff :: "int \<Rightarrow> string \<Rightarrow> int" where
  "getPeriodCutoff now period =
     (if period = ''week'' then now - weekMs
      else if period = ''month'' then now - (4 * weekMs)
      else 0)"

definition cutoffTimestamp :: "int \<Rightarrow> string \<Rightarrow> real" where
  "cutoffTimestamp now period = real_of_int (getPeriodCutoff now period) / 1000"

text \<open>\<^verbatim>\<open>xs.reduce((sum, x) => sum + f(x), 0)\<close>\<close>

definition reduce_sum :: "('a \<Rightarrow> nat) \<Rightarrow> 'a list \<Rightarrow> nat" where
  "reduce_sum f xs = fold (\<lambda>x sum. sum + f x) xs 0"

text \<open>The callback of \<^verbatim>\<open>contributors.map\<close>.\<close>

definition processOne :: "real \<Rightarrow> contributor \<Rightarrow> entry" where
  "processOne cutoff contributor =
     (let relevantWeeks = filter (\<lambda>week. real_of_int (week_w week) \<ge> cutoff) (weeks contributor);
          commits = reduce_sum week_c relevantWeeks;
          additions = reduce_sum week_a relevantWeeks;
          deletions = reduce_sum week_d relevantWeeks;
          score = calculateScore commits additions deletions;
          titleInfo = assignTitle commits additions deletions
      in \<lparr> entry_login = login contributor,
           entry_avatar = avatar contributor,
           entry_profileUrl = profileUrl contributor,
           commits = commits,
           additions = additions,
           deletions = deletions,
           score = score,
           title = fst titleInfo,
           color = snd titleInfo,
           rank = None \<rparr>)"

definition isActive :: "entry \<Rightarrow> bool" where
  "isActive c = (commits c > 0 \<or> additions c > 0 \<or> deletions c > 0)"

text \<open>
  \<^verbatim>\<open>Array.prototype.sort\<close> with a comparator is a stable sort (ECMAScript 2019): an
  element is placed before the first later element that the comparator does not put
  ahead of it. The comparator of the source is \<^verbatim>\<open>(a, b) => b.score - a.score\<close>.
\<close>

fun insort_cmp :: "('a \<Rightarrow> 'a \<Rightarrow> real) \<Rightarrow> 'a \<Rightarrow> 'a list \<Rightarrow> 'a list" where
  "insort_cmp cmp x [] = [x]"
| "insort_cmp cmp x (y # ys) = (if cmp x y \<le> 0 then x # y # ys else y # insort_cmp cmp x ys)"

definition array_sort :: "('a \<Rightarrow> 'a \<Rightarrow> real) \<Rightarrow> 'a list \<Rightarrow> 'a list" where
  "array_sort cmp xs = foldr (insort_cmp cmp) xs []"

definition byScore :: "entry \<Rightarrow> entry \<Rightarrow> real" where
  "byScore a b = score b - score a"

text \<open>\<^verbatim>\<open>active.forEach((contributor, index) => { contributor.rank = index + 1 })\<close>\<close>

definition assignRanks :: "entry list \<Rightarrow> entry list" where
  "assignRanks active =
     map (\<lambda>(index, contributor). contributor\<lparr>rank := Some (index + 1)\<rparr>) (enumerate 0 active)"

definition activeEntries :: "int \<Rightarrow> contributor list \<Rightarrow> string \<Rightarrow> entry list" where
  "activeEntries now contributors period =
     (let processed = map (processOne (cutoffTimestamp now period)) contributors
      in filter isActive processed)"

definition processContributors :: "int \<Rightarrow> contributor list \<Rightarrow> string \<Rightarrow> entry list" where
  "processContributors now contributors period =
     assignRanks (array_sort byScore (activeEntries now contributors period))"


text \<open>
  Specification-level notions used to state the claims: an entry with its rank removed,
  the period totals of a contributor as the specification words them, and the totals an
  entry carries.
\<close>

definition unranked :: "entry \<Rightarrow> entry" where
  "unranked e = e\<lparr>rank := None\<rparr>"

definition periodTotals :: "real \<Rightarrow> contributor \<Rightarrow> string \<times> nat \<times> nat \<times> nat" where
  "periodTotals cutoff c =
     (let ws = filter (\<lambda>w. cutoff \<le> real_of_int (week_w w)) (weeks c)
      in (login c, sum_list (map week_c ws), sum_list (map week_a ws), sum_list (map week_d ws)))"

definition entryTotals :: "entry \<Rightarrow> string \<times> nat \<times> nat \<times> nat" where
  "entryTotals e = (entry_login e, commits e, additions e, deletions e)"

definition allZero :: "string \<times> nat \<times> nat \<times> nat \<Rightarrow> bool" where
  "allZero t = (case t of (l, c, a, d) \<Rightarrow> c = 0 \<and> a = 0 \<and> d = 0)"

subsection \<open>Merging the two contributor sources (background.js, fetchContributorStats)\<close>

text \<open>
  The entries of the two responses. Every field of a JSON object may be missing, so
  the fields are options. List A is the body of \<^verbatim>\<open>stats/contributors\<close>, list B the body
  of \<^verbatim>\<open>contributors\<close>. A body is either an array or something else.
\<close>

record author =
  author_login :: "string option"
  author_avatar_url :: "string option"
  author_html_url :: "string option"

record stat =
  stat_author :: "author option"
  stat_weeks :: "week list option"

record listed =
  listed_login :: "string option"
  listed_avatar_url :: "string option"
  listed_html_url :: "string option"
  listed_contributions :: "nat option"

datatype 'a json = NotArray | Array "'a list"

definition elems :: "'a json \<Rightarrow> 'a list" where
  "elems data = (case data of NotArray \<Rightarrow> [] | Array xs \<Rightarrow> xs)"

text \<open>\<^verbatim>\<open>String.prototype.toLowerCase\<close>, on the ASCII letters that logins are made of.\<close>

definition lowerChar :: "char \<Rightarrow> char" where
  "lowerChar ch =
     (case map_of (zip ''ABCDEFGHIJKLMNOPQRSTUVWXYZ'' ''abcdefghijklmnopqrstuvwxyz'') ch of
        None \<Rightarrow> ch
      | Some l \<Rightarrow> l)"

definition toLowerCase :: "string \<Rightarrow> string" where
  "toLowerCase s = map lowerChar s"

text \<open>\<^verbatim>\<open>s || ''\<close>\<close>

definition orEmpty :: "string option \<Rightarrow> string" where
  "orEmpty s = (case s of None \<Rightarrow> [] | Some x \<Rightarrow> x)"

text \<open>
  The \<^verbatim>\<open>Map\<close> of the source keeps its keys in insertion order; it is an association
  list. \<^verbatim>\<open>Map.set\<close> is \<open>AList.update\<close>: it replaces the value of a present key in
  place and appends an absent key at the end.
\<close>

definition map_has :: "('k \<times> 'v) list \<Rightarrow> 'k \<Rightarrow> bool" where
  "map_has m k = (map_of m k \<noteq> None)"

text \<open>\<^verbatim>\<open>stat.author?.login\<close>, and the body of the loop over list A.\<close>

definition statLogin :: "stat \<Rightarrow> string option" where
  "statLogin st = (case stat_author st of None \<Rightarrow> None | Some au \<Rightarrow> author_login au)"

definition fromStat :: "string \<Rightarrow> stat \<Rightarrow> contributor" where
  "fromStat l st =
     \<lparr> login = l,
       avatar = orEmpty (case stat_author st of None \<Rightarrow> None | Some au \<Rightarrow> author_avatar_url au),
       profileUrl = orEmpty (case stat_author st of None \<Rightarrow> None | Some au \<Rightarrow> author_html_url au),
       weeks = (case stat_weeks st of None \<Rightarrow> [] | Some ws \<Rightarrow> ws),
       totalCommits = None \<rparr>"

definition addStat :: "stat \<Rightarrow> (string \<times> contributor) list \<Rightarrow> (string \<times> contributor) list" where
  "addStat st contributorMap =
     (case statLogin st of
        None \<Rightarrow> contributorMap
      | Some l \<Rightarrow>
          if l = [] then contributorMap
          else AList.update (toLowerCase l) (fromStat l st) contributorMap)"

text \<open>The body of the loop over list B.\<close>

definition fromListed :: "string \<Rightarrow> listed \<Rightarrow> contributor" where
  "fromListed l c =
     \<lparr> login = l,
       avatar = orEmpty (listed_avatar_url c),
       profileUrl = orEmpty (listed_html_url c),
       weeks = [],
       totalCommits = Some (case listed_contributions c of None \<Rightarrow> 0 | Some n \<Rightarrow> n) \<rparr>"

definition addListed :: "listed \<Rightarrow> (string \<times> contributor) list \<Rightarrow> (string \<times> contributor) list" where
  "addListed c contributorMap =
     (case listed_login c of
        None \<Rightarrow> contributorMap
      | Some l \<Rightarrow>
          if l = [] then contributorMap
          else let key = toLowerCase l in
            if map_has contributorMap key then contributorMap
            else AList.update key (fromListed l c) contributorMap)"

definition contributorMap :: "stat json \<Rightarrow> listed json \<Rightarrow> (string \<times> contributor) list" where
  "contributorMap statsData listData =
     fold addListed (elems listData) (fold addStat (elems statsData) [])"

definition mergeContributors :: "stat json \<Rightarrow> listed json \<Rightarrow> contributor list" where
  "mergeContributors statsData listData = map snd (contributorMap statsData listData)"

text \<open>
  The callback of the filter that selects the contributors to backfill;
  \<^verbatim>\<open>a || b || 0\<close> on numbers takes the first one that is not zero.
\<close>

definition qualifies :: "contributor \<Rightarrow> bool" where
  "qualifies c =
     (let sumCommits = reduce_sum week_c (weeks c);
          totalCommits = (if sumCommits \<noteq> 0 then sumCommits
                          else case totalCommits c of None \<Rightarrow> 0 | Some n \<Rightarrow> n);
          totalAdd = reduce_sum week_a (weeks c);
          totalDel = reduce_sum week_d (weeks c)
      in totalCommits > 0 \<and> totalAdd = 0 \<and> totalDel = 0)"

definition needsDiffStats :: "contributor list \<Rightarrow> contributor list" where
  "needsDiffStats contributors = filter qualifies contributors"

text \<open>
  Specification-level notions for the merge: the key under which an entry is stored, if
  it has a login, and the record stored for it.
\<close>

definition statKey :: "stat \<Rightarrow> string option" where
  "statKey st = (case statLogin st of None \<Rightarrow> None | Some l \<Rightarrow> if l = [] then None else Some (toLowerCase l))"

definition listedKey :: "listed \<Rightarrow> string option" where
  "listedKey c = (case listed_login c of None \<Rightarrow> None | Some l \<Rightarrow> if l = [] then None else Some (toLowerCase l))"

definition statRecord :: "stat \<Rightarrow> contributor" where
  "statRecord st = fromStat (orEmpty (statLogin st)) st"

definition listedRecord :: "listed \<Rightarrow> contributor" where
  "listedRecord c = fromListed (orEmpty (listed_login c)) c"

text \<open>The three totals of the qualification predicate, as the specification words them.\<close>

definition spec_totalCommits :: "contributor \<Rightarrow> nat" where
  "spec_totalCommits c =
     (let s = sum_list (map week_c (weeks c))
      in if s = 0 then (case totalCommits c of None \<Rightarrow> 0 | Some n \<Rightarrow> n) else s)"

definition spec_totalAdditions :: "contributor \<Rightarrow> nat" where
  "spec_totalAdditions c = sum_list (map week_a (weeks c))"

definition spec_totalDeletions :: "contributor \<Rightarrow> nat" where
  "spec_totalDeletions c = sum_list (map week_d (weeks c))"

text \<open>
  \<^verbatim>\<open>listResponse?.ok ? await listResponse.json() : []\<close>; the response is absent when
  the fetch failed.
\<close>

definition listData :: "(bool \<times> listed json) option \<Rightarrow> listed json" where
  "listData listResponse =
     (case listResponse of
        None \<Rightarrow> Array []
      | Some (ok, body) \<Rightarrow> if ok then body else Array [])"

subsection \<open>Diff backfill (background.js, getWeekStartTimestamp and fillDiffStats)\<close>

text \<open>
  A date is a number of milliseconds since the epoch. \<^verbatim>\<open>setUTCHours(0, 0, 0, 0)\<close> goes
  back to the start of the UTC day, \<^verbatim>\<open>getUTCDay()\<close> is the day of the week, 0 for
  Sunday (1 January 1970 was a Thursday, day 4), and
  \<^verbatim>\<open>setUTCDate(getUTCDate() - getUTCDay())\<close> goes back that many days.
\<close>

definition msPerDay :: int where
  "msPerDay = 86400000"

definition setUTCHours0 :: "int \<Rightarrow> int" where
  "setUTCHours0 t = t - t mod msPerDay"

definition getUTCDay :: "int \<Rightarrow> int" where
  "getUTCDay t = (t div msPerDay + 4) mod 7"

definition getWeekStartTimestamp :: "int \<Rightarrow> int" where
  "getWeekStartTimestamp date =
     (let d0 = setUTCHours0 date;
          d1 = d0 - getUTCDay d0 * msPerDay
      in d1 div 1000)"

text \<open>
  The detail of one commit: \<^verbatim>\<open>detail.stats\<close> with its two counters, and
  \<^verbatim>\<open>detail.commit.author.date\<close> as the date it denotes, a timestamp of the hosting
  API. A detail is absent (\<^verbatim>\<open>null\<close>) when its fetch failed.
\<close>

record diffstat =
  stats_additions :: "nat option"
  stats_deletions :: "nat option"

record detail =
  detail_stats :: "diffstat option"
  detail_date :: "int option"

definition orZero :: "nat option \<Rightarrow> nat" where
  "orZero n = (case n of None \<Rightarrow> 0 | Some x \<Rightarrow> x)"

text \<open>The body of the loop that builds \<^verbatim>\<open>weekMap\<close>.\<close>

definition addDetail :: "detail option \<Rightarrow> (int \<times> week) list \<Rightarrow> (int \<times> week) list" where
  "addDetail d weekMap =
     (case d of
        None \<Rightarrow> weekMap
      | Some det \<Rightarrow>
          (case detail_stats det of
             None \<Rightarrow> weekMap
           | Some stats \<Rightarrow>
               (case detail_date det of
                  None \<Rightarrow> weekMap
                | Some date \<Rightarrow>
                    let weekStart = getWeekStartTimestamp date;
                        weekMap1 =
                          (if map_has weekMap weekStart then weekMap
                           else AList.update weekStart
                                  \<lparr>week_w = weekStart, week_a = 0, week_d = 0, week_c = 0\<rparr> weekMap)
                    in AList.map_entry weekStart
                         (\<lambda>week. week\<lparr>week_a := week_a week + orZero (stats_additions stats),
                                      week_d := week_d week + orZero (stats_deletions stats),
                                      week_c := week_c week + 1\<rparr>)
                         weekMap1)))"

definition buildWeekMap :: "detail option list \<Rightarrow> (int \<times> week) list" where
  "buildWeekMap details = fold addDetail details []"

text \<open>
  \<^verbatim>\<open>contributor.weeks.find(w => w.w === weekStart)\<close> returns the first bucket with that
  week start; the two assignments change that bucket in place.
\<close>

fun update_first :: "('a \<Rightarrow> bool) \<Rightarrow> ('a \<Rightarrow> 'a) \<Rightarrow> 'a list \<Rightarrow> 'a list" where
  "update_first P f [] = []"
| "update_first P f (x # xs) = (if P x then f x # xs else x # update_first P f xs)"

definition mergeWeek :: "int \<times> week \<Rightarrow> week list \<Rightarrow> week list" where
  "mergeWeek entry ws =
     (case entry of (weekStart, commitWeek) \<Rightarrow>
        (case find (\<lambda>w. week_w w = weekStart) ws of
           Some existing \<Rightarrow>
             update_first (\<lambda>w. week_w w = weekStart)
               (\<lambda>existing. existing\<lparr>week_a := week_a commitWeek, week_d := week_d commitWeek\<rparr>) ws
         | None \<Rightarrow> ws @ [commitWeek]))"

definition mergeWeekMap :: "(int \<times> week) list \<Rightarrow> contributor \<Rightarrow> contributor" where
  "mergeWeekMap weekMap contributor =
     (if weeks contributor = [] then contributor\<lparr>weeks := map snd weekMap\<rparr>
      else contributor\<lparr>weeks := fold mergeWeek weekMap (weeks contributor)\<rparr>)"

text \<open>
  The response to the request for the commits of an author: the fetch may be rejected;
  a response has its \<^verbatim>\<open>ok\<close> flag and a body, whose parsing by \<^verbatim>\<open>json()\<close> may be
  rejected as well. A commit of the list is its \<^verbatim>\<open>sha\<close>. \<open>detailOf\<close> is the outcome of
  the request for the detail of a commit, absent when the request failed.
\<close>

datatype 'a body = JsonRejected | Json "'a json"

datatype 'a response = FetchRejected | Response bool "'a body"

datatype exn = NetworkError | SyntaxError

definition fillDiffStats_try ::
  "(string \<Rightarrow> detail option) \<Rightarrow> string response \<Rightarrow> contributor \<Rightarrow> exn + contributor" where
  "fillDiffStats_try detailOf commitsResponse contributor =
     (case commitsResponse of
        FetchRejected \<Rightarrow> Inl NetworkError
      | Response ok body \<Rightarrow>
          if \<not> ok then Inr contributor
          else (case body of
                  JsonRejected \<Rightarrow> Inl SyntaxError
                | Json NotArray \<Rightarrow> Inr contributor
                | Json (Array commitList) \<Rightarrow>
                    if length commitList = 0 then Inr contributor
                    else let details = map detailOf (take 10 commitList);
                             weekMap = buildWeekMap details
                         in Inr (mergeWeekMap weekMap contributor)))"

text \<open>The \<^verbatim>\<open>catch\<close> logs a warning and returns: the contributor is as it was.\<close>

definition fillDiffStats ::
  "(string \<Rightarrow> detail option) \<Rightarrow> string response \<Rightarrow> contributor \<Rightarrow> contributor" where
  "fillDiffStats detailOf commitsResponse contributor =
     (case fillDiffStats_try detailOf commitsResponse contributor of
        Inl e \<Rightarrow> contributor
      | Inr contributor' \<Rightarrow> contributor')"

text \<open>
  The end of \<^verbatim>\<open>fetchContributorStats\<close>, from the two parsed bodies on: the merge, the
  empty result, and the backfill of every contributor that qualifies. Each backfill
  changes its own contributor in place and never throws, so the \<^verbatim>\<open>Promise.all\<close>
  resolves. \<open>commitsOf\<close> gives the response to the request for the commits of a login,
  and \<open>detailsOf\<close> the outcomes of the requests for commit details made in the backfill
  of a login.
\<close>

definition backfill ::
  "(string \<Rightarrow> string response) \<Rightarrow> (string \<Rightarrow> string \<Rightarrow> detail option)
     \<Rightarrow> contributor list \<Rightarrow> contributor list" where
  "backfill commitsOf detailsOf contributors =
     map (\<lambda>c. if qualifies c
              then fillDiffStats (detailsOf (login c)) (commitsOf (login c)) c
              else c)
       contributors"

datatype result = Empty | Success "contributor list"

definition fetchContributorStats ::
  "stat json \<Rightarrow> (bool \<times> listed json) option \<Rightarrow> (string \<Rightarrow> string response)
     \<Rightarrow> (string \<Rightarrow> string \<Rightarrow> detail option) \<Rightarrow> result" where
  "fetchContributorStats statsData listResponse commitsOf detailsOf =
     (let cm = contributorMap statsData (listData listResponse)
      in if length cm = 0 then Empty
         else Success (backfill commitsOf detailsOf (map snd cm)))"

text \<open>
  Specification-level notions for the backfill: the details that count (fetched, with a
  diff-stat and a date), each as its week key and its two counters, and the aggregate of
  the details of one week.
\<close>

definition validDetail :: "detail option \<Rightarrow> (int \<times> nat \<times> nat) option" where
  "validDetail d =
     (case d of
        None \<Rightarrow> None
      | Some det \<Rightarrow>
          (case detail_stats det of
             None \<Rightarrow> None
           | Some stats \<Rightarrow>
               (case detail_date det of
                  None \<Rightarrow> None
                | Some date \<Rightarrow>
                    Some (getWeekStartTimestamp date, orZero (stats_additions stats),
                          orZero (stats_deletions stats)))))"

definition detailsOfWeek :: "int \<Rightarrow> detail option list \<Rightarrow> (nat \<times> nat) list" where
  "detailsOfWeek k details =
     map snd (filter (\<lambda>v. fst v = k) (List.map_filter validDetail details))"

definition addTo :: "week \<Rightarrow> (nat \<times> nat) list \<Rightarrow> week" where
  "addTo wk vs =
     wk\<lparr>week_a := week_a wk + sum_list (map fst vs),
        week_d := week_d wk + sum_list (map snd vs),
        week_c := week_c wk + length vs\<rparr>"

definition weekAggregate :: "int \<Rightarrow> detail option list \<Rightarrow> week option" where
  "weekAggregate k details =
     (let vs = detailsOfWeek k details
      in if vs = [] then None
         else Some \<lparr>week_w = k, week_a = sum_list (map fst vs), week_d = sum_list (map snd vs),
                    week_c = length vs\<rparr>)"

text \<open>
  Specification-level notions for the merge of the new buckets into the existing ones:
  whether the bucket at an index is the first one with its week key; what becomes of
  the existing bucket at an index (only its additions and deletions change, and only if
  a new bucket has its key and it is the first with that key); the new buckets that are
  appended, in the order of the week map.
\<close>

definition firstWithKey :: "week list \<Rightarrow> nat \<Rightarrow> bool" where
  "firstWithKey ws i = (week_w (ws ! i) \<notin> set (map week_w (take i ws)))"

definition mergedExisting :: "(int \<times> week) list \<Rightarrow> week list \<Rightarrow> nat \<Rightarrow> week" where
  "mergedExisting wm ws i =
     (case map_of wm (week_w (ws ! i)) of
        Some commitWeek \<Rightarrow>
          if firstWithKey ws i
          then (ws ! i)\<lparr>week_a := week_a commitWeek, week_d := week_d commitWeek\<rparr>
          else ws ! i
      | None \<Rightarrow> ws ! i)"

definition appendedWeeks :: "(int \<times> week) list \<Rightarrow> week list \<Rightarrow> week list" where
  "appendedWeeks wm ws = map snd (filter (\<lambda>p. fst p \<notin> week_w ` set ws) wm)"

definition spec_merge :: "(int \<times> week) list \<Rightarrow> week list \<Rightarrow> week list" where
  "spec_merge wm ws = map (mergedExisting wm ws) [0 ..< length ws] @ appendedWeeks wm ws"

text \<open>
  The responses on which the backfill of a contributor is abandoned: the fetch of the
  commit list fails, the response is not ok, its body is not JSON or not an array, or
  the array is empty.
\<close>

definition abandoned :: "string response \<Rightarrow> bool" where
  "abandoned r =
     (case r of
        FetchRejected \<Rightarrow> True
      | Response ok body \<Rightarrow>
          \<not> ok \<or> (case body of
                     JsonRejected \<Rightarrow> True
                   | Json NotArray \<Rightarrow> True
                   | Json (Array commitList) \<Rightarrow> commitList = []))"

subsection \<open>processContributors on a store of objects\<close>

text \<open>
  The objects of the popup: contributor records, leaderboard entries and arrays of
  references. An address is an index into the store; a new object gets the next index.
  \<^verbatim>\<open>processContributors\<close> receives the address of the array of contributors. Reading a
  property of something that is not an object of the expected kind throws a
  \<^verbatim>\<open>TypeError\<close>; then the result is \<open>None\<close>. The weeks of a contributor are part of
  its record: the function reads them and writes to none of them.
\<close>

datatype obj = ContributorObj contributor | EntryObj entry | ArrayObj "nat list"

type_synonym store = "obj list"

definition lookup :: "store \<Rightarrow> nat \<Rightarrow> obj option" where
  "lookup h a = (if a < length h then Some (h ! a) else None)"

definition alloc :: "obj \<Rightarrow> store \<Rightarrow> nat \<times> store" where
  "alloc v h = (length h, h @ [v])"

text \<open>\<^verbatim>\<open>contributors.map(...)\<close>: one new entry object for each element.\<close>

fun mapProcess :: "real \<Rightarrow> nat list \<Rightarrow> store \<Rightarrow> (nat list \<times> store) option" where
  "mapProcess cutoff [] h = Some ([], h)"
| "mapProcess cutoff (r # rs) h =
     (case lookup h r of
        Some (ContributorObj contributor) \<Rightarrow>
          (case alloc (EntryObj (processOne cutoff contributor)) h of
             (p, h1) \<Rightarrow>
               (case mapProcess cutoff rs h1 of
                  Some (ps, h2) \<Rightarrow> Some (p # ps, h2)
                | None \<Rightarrow> None))
      | _ \<Rightarrow> None)"

text \<open>\<^verbatim>\<open>processed.filter(...)\<close>: the references to the active entries.\<close>

fun filterActive :: "store \<Rightarrow> nat list \<Rightarrow> nat list option" where
  "filterActive h [] = Some []"
| "filterActive h (p # ps) =
     (case lookup h p of
        Some (EntryObj c) \<Rightarrow>
          (case filterActive h ps of
             Some qs \<Rightarrow> Some (if isActive c then p # qs else qs)
           | None \<Rightarrow> None)
      | _ \<Rightarrow> None)"

text \<open>The comparator of the sort reads the scores of the two objects.\<close>

definition scoreAt :: "store \<Rightarrow> nat \<Rightarrow> real" where
  "scoreAt h p = (case lookup h p of Some (EntryObj e) \<Rightarrow> score e | _ \<Rightarrow> 0)"

text \<open>\<^verbatim>\<open>active.forEach(...)\<close>: the rank is written into the object of each element.\<close>

fun setRanks :: "nat \<Rightarrow> nat list \<Rightarrow> store \<Rightarrow> store option" where
  "setRanks index [] h = Some h"
| "setRanks index (p # ps) h =
     (case lookup h p of
        Some (EntryObj contributor) \<Rightarrow>
          setRanks (index + 1) ps (h[p := EntryObj (contributor\<lparr>rank := Some (index + 1)\<rparr>)])
      | _ \<Rightarrow> None)"

definition processContributors_store ::
  "int \<Rightarrow> nat \<Rightarrow> string \<Rightarrow> store \<Rightarrow> (nat \<times> store) option" where
  "processContributors_store now contributors period h =
     (case lookup h contributors of
        Some (ArrayObj rs) \<Rightarrow>
          (case mapProcess (cutoffTimestamp now period) rs h of
             None \<Rightarrow> None
           | Some (ps, h1) \<Rightarrow>
               (case alloc (ArrayObj ps) h1 of
                  (processed, h2) \<Rightarrow>
                    (case filterActive h2 ps of
                       None \<Rightarrow> None
                     | Some qs \<Rightarrow>
                         (case alloc (ArrayObj qs) h2 of
                            (active, h3) \<Rightarrow>
                              let sorted = array_sort (\<lambda>a b. scoreAt h3 b - scoreAt h3 a) qs;
                                  h4 = h3[active := ArrayObj sorted]
                              in (case setRanks 0 sorted h4 of
                                    None \<Rightarrow> None
                                  | Some h5 \<Rightarrow> Some (active, h5))))))
      | _ \<Rightarrow> None)"

text \<open>Reading an entry, and a contributor, at an address.\<close>

definition entryAt :: "store \<Rightarrow> nat \<Rightarrow> entry option" where
  "entryAt h p = (case lookup h p of Some (EntryObj e) \<Rightarrow> Some e | _ \<Rightarrow> None)"

definition contributorAt :: "store \<Rightarrow> nat \<Rightarrow> contributor option" where
  "contributorAt h r = (case lookup h r of Some (ContributorObj c) \<Rightarrow> Some c | _ \<Rightarrow> None)"

section \<open>Properties\<close>

subsection \<open>Facts about the score\<close>

lemma log10_nonneg: "0 \<le> log10 (real n + 1)"
  unfolding log10_def by simp


lemma balanceBonus_nonneg: "0 \<le> balanceBonus c a d"
  unfolding balanceBonus_def Let_def linesPerCommitBaseline_def
  by (auto simp: field_simps abs_if)

lemma balanceBonus_le_10: "balanceBonus c a d \<le> 10"
  unfolding balanceBonus_def Let_def by simp

lemma rawScore_nonneg: "0 \<le> rawScore c a d"
proof -
  have "0 \<le> log10 (real c + 1) * 100 * commitWeight"
    using log10_nonneg [of c] by (simp add: commitWeight_def)
  moreover have "0 \<le> log10 (real a + 1) * 10 * additionsWeight"
    using log10_nonneg [of a] by (simp add: additionsWeight_def)
  moreover have "0 \<le> log10 (real d + 1) * 10 * deletionsWeight"
    using log10_nonneg [of d] by (simp add: deletionsWeight_def)
  ultimately show ?thesis
    using balanceBonus_nonneg [of c a d] by (simp add: rawScore_def Let_def)
qed

lemma calculateScore_nonneg: "0 \<le> calculateScore c a d"
proof -
  have "0 \<le> rawScore c a d * 10"
    using rawScore_nonneg [of c a d] by simp
  then have "round (0::real) \<le> round (rawScore c a d * 10)"
    by (rule round_mono)
  then show ?thesis
    by (simp add: calculateScore_def)
qed


















text \<open>
  Claim C10. For all non-negative integers commits, additions and deletions, the balance
  bonus computed inside \<^verbatim>\<open>calculateScore\<close> lies in the closed interval from 0 to 10,
  and the returned score is never negative.
\<close>

theorem balanceBonus_bounds_score_nonneg:
  "0 \<le> balanceBonus c a d \<and> balanceBonus c a d \<le> 10 \<and> 0 \<le> calculateScore c a d"
  using balanceBonus_nonneg balanceBonus_le_10 calculateScore_nonneg by simp

theorem balanceBonus_bounds_score_nonneg_witness:
  "balanceBonus 2 60 40 = 10 \<and> balanceBonus 1 150 0 = 0
     \<and> 0 \<le> balanceBonus 3 10 5 \<and> balanceBonus 3 10 5 \<le> 10
     \<and> 0 \<le> calculateScore 3 10 5"
proof -
  have "balanceBonus 2 60 40 = 10"
    by (simp add: balanceBonus_def avgLinesPerCommit_def linesPerCommitBaseline_def)
  moreover have "balanceBonus 1 150 0 = 0"
    by (simp add: balanceBonus_def avgLinesPerCommit_def linesPerCommitBaseline_def)
  ultimately show ?thesis
    using balanceBonus_bounds_score_nonneg [of 3 10 5] by simp
qed




subsection \<open>Title classification\<close>

lemma firstMatch_titleRules: "firstMatch titleRules c a d = Some (assignTitle c a d)"
  unfolding titleRules_def assignTitle_def spec_ratio_def spec_deleteRatio_def spec_total_def
  by (simp add: Let_def)

lemma assignTitle_500_0_0: "assignTitle 500 0 0 = (CodeArchitect, ''#FFD700'')"
  by (simp add: assignTitle_def)

lemma assignTitle_no_rule:
  assumes "\<forall>r \<in> set (butlast titleRules). \<not> fst r c a d"
  shows "assignTitle c a d = (Inactive, ''#666677'')"
  using assms
  unfolding titleRules_def assignTitle_def spec_ratio_def spec_deleteRatio_def spec_total_def
  by (simp add: Let_def)

text \<open>
  Claim C6. Title classification returns one (title, colour) pair, the one of the first
  of the eleven rules, in the order of the specification, that holds. For 500 commits,
  no additions and no deletions it is Code Architect, and for inputs on which none of
  the first ten rules holds it is Inactive.
\<close>

theorem assignTitle_first_match:
  "firstMatch titleRules c a d = Some (assignTitle c a d)
   \<and> length titleRules = 11
   \<and> assignTitle 500 0 0 = (CodeArchitect, ''#FFD700'')
   \<and> ((\<forall>r \<in> set (butlast titleRules). \<not> fst r c a d)
        \<longrightarrow> assignTitle c a d = (Inactive, ''#666677''))"
  using firstMatch_titleRules assignTitle_500_0_0 assignTitle_no_rule
  by (simp add: titleRules_def)

theorem assignTitle_first_match_witness:
  "firstMatch titleRules 0 10 0 = Some (Inactive, ''#666677'')
   \<and> assignTitle 0 10 0 = (Inactive, ''#666677'')
   \<and> assignTitle 600 0 1000 = (CodeArchitect, ''#FFD700'')
   \<and> assignTitle 60 100 900 = (TheCleaner, ''#9B59B6'')"
proof -
  have none: "\<forall>r \<in> set (butlast titleRules). \<not> fst r 0 10 0"
    by (simp add: titleRules_def spec_ratio_def spec_deleteRatio_def spec_total_def)
  have "assignTitle 0 10 0 = (Inactive, ''#666677'')"
    using assignTitle_first_match [of 0 10 0] none by blast
  moreover have "firstMatch titleRules 0 10 0 = Some (assignTitle 0 10 0)"
    using assignTitle_first_match [of 0 10 0] by blast
  moreover have "assignTitle 600 0 1000 = (CodeArchitect, ''#FFD700'')"
    by (simp add: assignTitle_def)
  moreover have "assignTitle 60 100 900 = (TheCleaner, ''#9B59B6'')"
    by (simp add: assignTitle_def)
  ultimately show ?thesis by simp
qed

subsection \<open>Period aggregation and ranking\<close>

lemma reduce_sum_eq: "reduce_sum f xs = sum_list (map f xs)"
proof -
  have "fold (\<lambda>x sum. sum + f x) xs n = n + sum_list (map f xs)" for n
    by (induction xs arbitrary: n) simp_all
  then show ?thesis by (simp add: reduce_sum_def)
qed

lemma entryTotals_processOne: "entryTotals (processOne cutoff c) = periodTotals cutoff c"
  by (simp add: entryTotals_def processOne_def periodTotals_def Let_def reduce_sum_eq)

lemma isActive_iff: "isActive e \<longleftrightarrow> \<not> allZero (entryTotals e)"
  by (auto simp: isActive_def allZero_def entryTotals_def)

lemma insort_cmp_byScore: "insort_cmp byScore x ys = insort_key (\<lambda>e. - score e) x ys"
  by (induction ys) (simp_all add: byScore_def)

lemma array_sort_byScore: "array_sort byScore xs = sort_key (\<lambda>e. - score e) xs"
  by (induction xs) (simp_all add: array_sort_def insort_cmp_byScore)

lemma mset_array_sort_byScore: "mset (array_sort byScore xs) = mset xs"
  by (simp add: array_sort_byScore)

lemma sorted_array_sort_byScore: "sorted_wrt (\<lambda>x y. score x \<ge> score y) (array_sort byScore xs)"
proof -
  have "sorted (map (\<lambda>e. - score e) (sort_key (\<lambda>e. - score e) xs))"
    by (rule sorted_sort_key)
  then show ?thesis
    by (simp add: array_sort_byScore sorted_map)
qed

lemma stable_array_sort_byScore:
  "filter (\<lambda>e. score e = s) (array_sort byScore xs) = filter (\<lambda>e. score e = s) xs"
proof -
  have "filter (\<lambda>e. - score e = - s) (sort_key (\<lambda>e. - score e) xs) = filter (\<lambda>e. - score e = - s) xs"
    by (rule sort_key_stable)
  then show ?thesis by (simp add: array_sort_byScore)
qed

lemma length_assignRanks: "length (assignRanks es) = length es"
  by (simp add: assignRanks_def)

lemma nth_assignRanks: "i < length es \<Longrightarrow> assignRanks es ! i = (es ! i)\<lparr>rank := Some (i + 1)\<rparr>"
  by (simp add: assignRanks_def nth_enumerate_eq)

lemma map_rank_assignRanks:
  "map rank (assignRanks es) = map (\<lambda>index. Some (index + 1)) [0 ..< length es]"
  by (rule nth_equalityI) (simp_all add: length_assignRanks nth_assignRanks)

lemma assignRanks_fields:
  "map f (assignRanks es) = map f es" if "\<And>e r. f (e\<lparr>rank := r\<rparr>) = f e"
  by (rule nth_equalityI) (simp_all add: length_assignRanks nth_assignRanks that)

lemma rank_processOne: "rank (processOne cutoff c) = None"
  by (simp add: processOne_def Let_def)

lemma unranked_processOne: "unranked (processOne cutoff c) = processOne cutoff c"
  by (simp add: unranked_def processOne_def Let_def)

lemma unranked_activeEntries: "map unranked (activeEntries now cs period) = activeEntries now cs period"
  by (rule map_idI) (auto simp: activeEntries_def unranked_processOne)

lemma unranked_assignRanks: "map unranked (assignRanks es) = map unranked es"
  unfolding unranked_def by (rule assignRanks_fields) simp

lemma unranked_processContributors:
  "map unranked (processContributors now cs period)
     = array_sort byScore (activeEntries now cs period)"
proof -
  have "set (array_sort byScore (activeEntries now cs period)) = set (activeEntries now cs period)"
    using mset_array_sort_byScore [of "activeEntries now cs period"] by (metis set_mset_mset)
  then have "map unranked (array_sort byScore (activeEntries now cs period))
      = array_sort byScore (activeEntries now cs period)"
    by (intro map_idI) (auto simp: activeEntries_def unranked_processOne)
  then show ?thesis
    by (simp add: processContributors_def unranked_assignRanks)
qed

lemma score_unranked: "score (unranked e) = score e"
  by (simp add: unranked_def)

lemma entryTotals_unranked: "entryTotals (unranked e) = entryTotals e"
  by (simp add: unranked_def entryTotals_def)

text \<open>
  Claim C7. The ranker sorts the active entries by score, highest first; entries with
  equal scores keep the relative order they had before the sort; and the entry at index
  \<open>i\<close> of the result gets rank \<open>i + 1\<close>, so the ranks are 1, 2, ..., n.
\<close>

theorem processContributors_ranked:
  "map rank (processContributors now cs period)
     = map (\<lambda>index. Some (index + 1)) [0 ..< length (processContributors now cs period)]
   \<and> sorted_wrt (\<lambda>x y. score x \<ge> score y) (processContributors now cs period)
   \<and> mset (map unranked (processContributors now cs period)) = mset (activeEntries now cs period)
   \<and> (\<forall>s. filter (\<lambda>e. score e = s) (map unranked (processContributors now cs period))
           = filter (\<lambda>e. score e = s) (activeEntries now cs period))"
proof -
  let ?act = "activeEntries now cs period"
  let ?out = "processContributors now cs period"
  have u: "map unranked ?out = array_sort byScore ?act"
    by (rule unranked_processContributors)
  have "map rank ?out = map (\<lambda>index. Some (index + 1)) [0 ..< length ?out]"
    unfolding processContributors_def
    by (simp add: map_rank_assignRanks length_assignRanks)
  moreover have "sorted_wrt (\<lambda>x y. score x \<ge> score y) ?out"
  proof -
    have "sorted_wrt (\<lambda>x y. score x \<ge> score y) (map unranked ?out)"
      unfolding u by (rule sorted_array_sort_byScore)
    then show ?thesis
      by (simp add: sorted_wrt_map score_unranked)
  qed
  moreover have "mset (map unranked ?out) = mset ?act"
    unfolding u by (rule mset_array_sort_byScore)
  moreover have "filter (\<lambda>e. score e = s) (map unranked ?out) = filter (\<lambda>e. score e = s) ?act" for s
    unfolding u by (rule stable_array_sort_byScore)
  ultimately show ?thesis by blast
qed

lemma calculateScore_9_0_0: "calculateScore 9 0 0 = 40"
  by (simp add: calculateScore_def rawScore_def balanceBonus_def avgLinesPerCommit_def
      log10_def commitWeight_def additionsWeight_def deletionsWeight_def)

lemma calculateScore_99_0_0: "calculateScore 99 0 0 = 80"
proof -
  have "log 10 (10 ^ 2) = real 2"
    by (rule log_pow_cancel) simp_all
  then have "log 10 100 = 2" by simp
  then show ?thesis
    by (simp add: calculateScore_def rawScore_def balanceBonus_def avgLinesPerCommit_def
        log10_def commitWeight_def additionsWeight_def deletionsWeight_def)
qed

theorem processContributors_ranked_witness:
  "map (\<lambda>e. (entry_login e, score e)) (processContributors 0
      [\<lparr>login = ''X'', avatar = [], profileUrl = [],
         weeks = [\<lparr>week_w = 0, week_a = 0, week_d = 0, week_c = 9\<rparr>], totalCommits = None\<rparr>,
       \<lparr>login = ''Y'', avatar = [], profileUrl = [],
         weeks = [\<lparr>week_w = 0, week_a = 0, week_d = 0, week_c = 99\<rparr>], totalCommits = None\<rparr>,
       \<lparr>login = ''Z'', avatar = [], profileUrl = [],
         weeks = [\<lparr>week_w = 0, week_a = 0, week_d = 0, week_c = 9\<rparr>], totalCommits = None\<rparr>]
      ''all'')
     = [(''Y'', 80), (''X'', 40), (''Z'', 40)]
   \<and> map rank (processContributors 0
      [\<lparr>login = ''X'', avatar = [], profileUrl = [],
         weeks = [\<lparr>week_w = 0, week_a = 0, week_d = 0, week_c = 9\<rparr>], totalCommits = None\<rparr>,
       \<lparr>login = ''Y'', avatar = [], profileUrl = [],
         weeks = [\<lparr>week_w = 0, week_a = 0, week_d = 0, week_c = 99\<rparr>], totalCommits = None\<rparr>,
       \<lparr>login = ''Z'', avatar = [], profileUrl = [],
         weeks = [\<lparr>week_w = 0, week_a = 0, week_d = 0, week_c = 9\<rparr>], totalCommits = None\<rparr>]
      ''all'')
     = [Some 1, Some 2, Some 3]"
  (is "map _ (processContributors ?now ?cs ?period) = _ \<and> _")
proof -
  have order: "map (\<lambda>e. (entry_login e, score e)) (processContributors ?now ?cs ?period)
      = [(''Y'', 80), (''X'', 40), (''Z'', 40)]"
    by (simp add: processContributors_def assignRanks_def array_sort_def activeEntries_def
        processOne_def isActive_def byScore_def reduce_sum_def cutoffTimestamp_def
        getPeriodCutoff_def calculateScore_9_0_0 calculateScore_99_0_0 Let_def)
  then have "length (map (\<lambda>e. (entry_login e, score e)) (processContributors ?now ?cs ?period)) = 3"
    by simp
  then have len: "length (processContributors ?now ?cs ?period) = 3"
    by (simp only: length_map)
  have "map rank (processContributors ?now ?cs ?period)
      = map (\<lambda>index. Some (index + 1)) [0 ..< length (processContributors ?now ?cs ?period)]"
    using processContributors_ranked [of ?now ?cs ?period] by blast
  also have "\<dots> = [Some 1, Some 2, Some 3]"
    unfolding len by (simp add: upt_rec)
  finally show ?thesis using order by blast
qed

lemma entryTotals_activeEntries:
  "map entryTotals (activeEntries now cs period)
     = filter (\<lambda>t. \<not> allZero t) (map (periodTotals (cutoffTimestamp now period)) cs)"
proof -
  have "map entryTotals (filter isActive es) = filter (\<lambda>t. \<not> allZero t) (map entryTotals es)" for es
    by (induction es) (simp_all add: isActive_iff)
  then show ?thesis
    by (simp add: activeEntries_def entryTotals_processOne comp_def)
qed

lemma getPeriodCutoff_cases:
  "cutoffTimestamp now ''all'' = 0"
  "cutoffTimestamp now ''week'' = real_of_int now / 1000 - 7 * 24 * 60 * 60"
  "cutoffTimestamp now ''month'' = real_of_int now / 1000 - 28 * 24 * 60 * 60"
  by (simp_all add: cutoffTimestamp_def getPeriodCutoff_def weekMs_def field_simps)

text \<open>
  Claim C5. The cutoff, in Unix seconds, is 0 for the period all, now minus 7 days for
  week and now minus 28 days for month. The totals of each contributor are the sums of
  commits, additions and deletions over exactly the week buckets whose start is at or
  after the cutoff, and the result holds exactly the contributors whose three totals are
  not all zero.
\<close>

theorem processContributors_period_totals:
  "cutoffTimestamp now ''all'' = 0
   \<and> cutoffTimestamp now ''week'' = real_of_int now / 1000 - 7 * 24 * 60 * 60
   \<and> cutoffTimestamp now ''month'' = real_of_int now / 1000 - 28 * 24 * 60 * 60
   \<and> mset (map entryTotals (processContributors now cs period))
       = mset (filter (\<lambda>t. \<not> allZero t) (map (periodTotals (cutoffTimestamp now period)) cs))"
proof -
  have "mset (map entryTotals (processContributors now cs period))
      = mset (map entryTotals (map unranked (processContributors now cs period)))"
    by (simp add: entryTotals_unranked comp_def)
  also have "\<dots> = image_mset entryTotals (mset (array_sort byScore (activeEntries now cs period)))"
    by (simp only: unranked_processContributors mset_map)
  also have "\<dots> = mset (map entryTotals (activeEntries now cs period))"
    by (simp add: mset_array_sort_byScore)
  finally show ?thesis
    by (simp add: entryTotals_activeEntries getPeriodCutoff_cases)
qed



theorem processContributors_period_totals_witness:
  "mset (map entryTotals (processContributors 1700000000000
      [\<lparr>login = ''A'', avatar = [], profileUrl = [],
         weeks = [\<lparr>week_w = 0, week_a = 5, week_d = 5, week_c = 1\<rparr>,
                  \<lparr>week_w = 1699136000, week_a = 7, week_d = 1, week_c = 2\<rparr>,
                  \<lparr>week_w = 1699913600, week_a = 10, week_d = 2, week_c = 3\<rparr>],
         totalCommits = None\<rparr>,
       \<lparr>login = ''B'', avatar = [], profileUrl = [],
         weeks = [\<lparr>week_w = 0, week_a = 5, week_d = 5, week_c = 1\<rparr>],
         totalCommits = None\<rparr>] ''week''))
   = {#(''A'', 3, 10, 2)#}"
  (is "mset (map entryTotals (processContributors ?now ?cs ?period)) = _")
proof -
  have "mset (map entryTotals (processContributors ?now ?cs ?period))
      = mset (filter (\<lambda>t. \<not> allZero t) (map (periodTotals (cutoffTimestamp ?now ?period)) ?cs))"
    using processContributors_period_totals [of ?now ?cs ?period] by blast
  also have "\<dots> = {#(''A'', 3, 10, 2)#}"
    by (simp add: cutoffTimestamp_def getPeriodCutoff_def weekMs_def periodTotals_def allZero_def)
  finally show ?thesis .
qed

lemma addStat_key: "addStat st m = (case statKey st of None \<Rightarrow> m | Some k \<Rightarrow> AList.update k (statRecord st) m)"
  by (simp add: addStat_def statKey_def statRecord_def orEmpty_def split: option.splits)

lemma addListed_key:
  "addListed c m = (case listedKey c of None \<Rightarrow> m
     | Some k \<Rightarrow> if map_of m k \<noteq> None then m else AList.update k (listedRecord c) m)"
  by (simp add: addListed_def listedKey_def listedRecord_def orEmpty_def map_has_def Let_def split: option.splits)

lemma map_of_addStat:
  "map_of (addStat st m) k = (if statKey st = Some k then Some (statRecord st) else map_of m k)"
  by (simp add: addStat_key update_conv split: option.splits)

lemma map_of_addListed:
  "map_of (addListed c m) k =
     (case map_of m k of
        Some r \<Rightarrow> Some r
      | None \<Rightarrow> if listedKey c = Some k then Some (listedRecord c) else None)"
  by (auto simp: addListed_key update_conv split: option.splits)

lemma find_snoc:
  "find P (xs @ [x]) = (case find P xs of Some y \<Rightarrow> Some y | None \<Rightarrow> if P x then Some x else None)"
  by (induction xs) simp_all

lemma map_of_fold_addStat:
  "map_of (fold addStat sts m) k =
     (case find (\<lambda>st. statKey st = Some k) (rev sts) of
        Some st \<Rightarrow> Some (statRecord st)
      | None \<Rightarrow> map_of m k)"
proof (induction sts arbitrary: m)
  case Nil
  then show ?case by simp
next
  case (Cons st sts)
  have "map_of (fold addStat (st # sts) m) k = map_of (fold addStat sts (addStat st m)) k"
    by simp
  also have "\<dots> = (case find (\<lambda>st. statKey st = Some k) (rev sts) of
        Some st \<Rightarrow> Some (statRecord st) | None \<Rightarrow> map_of (addStat st m) k)"
    by (rule Cons.IH)
  finally show ?case
    by (simp add: map_of_addStat find_snoc split: option.splits)
qed

lemma map_of_fold_addListed:
  "map_of (fold addListed cs m) k =
     (case map_of m k of
        Some r \<Rightarrow> Some r
      | None \<Rightarrow> map_option listedRecord (find (\<lambda>c. listedKey c = Some k) cs))"
proof (induction cs arbitrary: m)
  case Nil
  then show ?case by (simp split: option.splits)
next
  case (Cons c cs)
  have "map_of (fold addListed (c # cs) m) k = map_of (fold addListed cs (addListed c m)) k"
    by simp
  also have "\<dots> = (case map_of (addListed c m) k of
        Some r \<Rightarrow> Some r
      | None \<Rightarrow> map_option listedRecord (find (\<lambda>c. listedKey c = Some k) cs))"
    by (rule Cons.IH)
  finally show ?case
    by (simp add: map_of_addListed split: option.splits)
qed

lemma distinct_addStat: "distinct (map fst m) \<Longrightarrow> distinct (map fst (addStat st m))"
  by (simp add: addStat_key distinct_update split: option.splits)

lemma distinct_addListed: "distinct (map fst m) \<Longrightarrow> distinct (map fst (addListed c m))"
  by (simp add: addListed_key distinct_update split: option.splits)

lemma distinct_fold_addStat: "distinct (map fst m) \<Longrightarrow> distinct (map fst (fold addStat sts m))"
  by (induction sts arbitrary: m) (simp_all add: distinct_addStat)

lemma distinct_fold_addListed: "distinct (map fst m) \<Longrightarrow> distinct (map fst (fold addListed cs m))"
  by (induction cs arbitrary: m) (simp_all add: distinct_addListed)

lemma map_of_contributorMap:
  "map_of (contributorMap statsData ld) k =
     (case find (\<lambda>st. statKey st = Some k) (rev (elems statsData)) of
        Some st \<Rightarrow> Some (statRecord st)
      | None \<Rightarrow> map_option listedRecord (find (\<lambda>c. listedKey c = Some k) (elems ld)))"
  by (simp add: contributorMap_def map_of_fold_addListed map_of_fold_addStat split: option.splits)

lemma distinct_contributorMap: "distinct (map fst (contributorMap statsData ld))"
  by (simp add: contributorMap_def distinct_fold_addListed distinct_fold_addStat)

lemma qualifies_iff:
  "qualifies c \<longleftrightarrow>
     spec_totalCommits c > 0 \<and> spec_totalAdditions c = 0 \<and> spec_totalDeletions c = 0"
  unfolding qualifies_def spec_totalCommits_def spec_totalAdditions_def spec_totalDeletions_def
    Let_def reduce_sum_eq
  by (simp split: option.splits)

text \<open>
  Claim C3. A merged contributor is selected for diff backfill if and only if its total
  commits are positive and its total additions and total deletions are both zero, where
  the total commits are the sum of the weekly commit counts, or the fallback total when
  that sum is zero.
\<close>

theorem needsDiffStats_iff:
  "(c \<in> set (needsDiffStats cs) \<longleftrightarrow>
      c \<in> set cs \<and> spec_totalCommits c > 0 \<and> spec_totalAdditions c = 0
        \<and> spec_totalDeletions c = 0)
   \<and> needsDiffStats cs
       = filter (\<lambda>c. spec_totalCommits c > 0 \<and> spec_totalAdditions c = 0
                        \<and> spec_totalDeletions c = 0) cs"
proof -
  have "qualifies = (\<lambda>c. spec_totalCommits c > 0 \<and> spec_totalAdditions c = 0
                        \<and> spec_totalDeletions c = 0)"
    by (rule ext) (rule qualifies_iff)
  then show ?thesis
    by (simp add: needsDiffStats_def qualifies_iff)
qed

theorem needsDiffStats_iff_witness:
  "needsDiffStats
     [\<lparr>login = ''a'', avatar = [], profileUrl = [],
        weeks = [\<lparr>week_w = 0, week_a = 0, week_d = 0, week_c = 4\<rparr>,
                 \<lparr>week_w = 604800, week_a = 0, week_d = 0, week_c = 6\<rparr>], totalCommits = None\<rparr>,
      \<lparr>login = ''b'', avatar = [], profileUrl = [],
        weeks = [\<lparr>week_w = 0, week_a = 3, week_d = 0, week_c = 4\<rparr>], totalCommits = None\<rparr>,
      \<lparr>login = ''c'', avatar = [], profileUrl = [], weeks = [], totalCommits = Some 7\<rparr>,
      \<lparr>login = ''d'', avatar = [], profileUrl = [], weeks = [], totalCommits = Some 0\<rparr>,
      \<lparr>login = ''e'', avatar = [], profileUrl = [],
        weeks = [\<lparr>week_w = 0, week_a = 0, week_d = 0, week_c = 0\<rparr>], totalCommits = None\<rparr>]
   = [\<lparr>login = ''a'', avatar = [], profileUrl = [],
        weeks = [\<lparr>week_w = 0, week_a = 0, week_d = 0, week_c = 4\<rparr>,
                 \<lparr>week_w = 604800, week_a = 0, week_d = 0, week_c = 6\<rparr>], totalCommits = None\<rparr>,
      \<lparr>login = ''c'', avatar = [], profileUrl = [], weeks = [], totalCommits = Some 7\<rparr>]"
  (is "needsDiffStats ?cs = _")
proof -
  have "needsDiffStats ?cs
      = filter (\<lambda>c. spec_totalCommits c > 0 \<and> spec_totalAdditions c = 0
                        \<and> spec_totalDeletions c = 0) ?cs"
    using needsDiffStats_iff [of _ ?cs] by blast
  then show ?thesis
    by (simp add: spec_totalCommits_def spec_totalAdditions_def spec_totalDeletions_def)
qed

text \<open>
  Claim C2. The merge of the two sources is keyed by lowercased login. Every entry of
  list A with a login is inserted with its weeks, and an entry without a login is
  dropped. Every entry of list B whose key is not present is inserted with no weeks and
  its contributions as the fallback total; one whose key is present changes nothing. So
  in the merged map a key holds the data of list A if list A has an entry for it (of
  its last one, as an insertion replaces the value of a present key), else the data of
  the first entry of list B for it. A source that is absent or not an array contributes
  nothing.
\<close>

theorem contributorMap_merge:
  "map_of (contributorMap statsData ld) k =
     (case find (\<lambda>st. statKey st = Some k) (rev (elems statsData)) of
        Some st \<Rightarrow> Some (statRecord st)
      | None \<Rightarrow> map_option listedRecord (find (\<lambda>c. listedKey c = Some k) (elems ld)))
   \<and> distinct (map fst (contributorMap statsData ld))
   \<and> mergeContributors statsData ld = map snd (contributorMap statsData ld)
   \<and> weeks (statRecord st) = (case stat_weeks st of None \<Rightarrow> [] | Some ws \<Rightarrow> ws)
   \<and> totalCommits (statRecord st) = None
   \<and> weeks (listedRecord c) = []
   \<and> totalCommits (listedRecord c)
       = Some (case listed_contributions c of None \<Rightarrow> 0 | Some n \<Rightarrow> n)
   \<and> contributorMap NotArray ld = contributorMap (Array []) ld
   \<and> contributorMap statsData NotArray = contributorMap statsData (Array [])
   \<and> listData None = Array [] \<and> listData (Some (False, body)) = Array []
   \<and> (statKey st = Some k \<longrightarrow> map_of (addStat st m) k = Some (statRecord st))
   \<and> (statKey st = None \<longrightarrow> addStat st m = m)
   \<and> (listedKey c = Some k \<and> map_of m k = None
        \<longrightarrow> map_of (addListed c m) k = Some (listedRecord c))
   \<and> (listedKey c = Some k \<and> map_of m k \<noteq> None \<longrightarrow> addListed c m = m)
   \<and> (listedKey c = None \<longrightarrow> addListed c m = m)"
proof -
  have "statKey st = Some k \<Longrightarrow> map_of (addStat st m) k = Some (statRecord st)"
    "listedKey c = Some k \<Longrightarrow> map_of m k = None
       \<Longrightarrow> map_of (addListed c m) k = Some (listedRecord c)"
    by (simp_all add: map_of_addStat map_of_addListed)
  moreover have "statKey st = None \<Longrightarrow> addStat st m = m"
    "listedKey c = Some k \<Longrightarrow> map_of m k \<noteq> None \<Longrightarrow> addListed c m = m"
    "listedKey c = None \<Longrightarrow> addListed c m = m"
    by (simp_all add: addStat_key addListed_key)
  moreover have "contributorMap NotArray ld = contributorMap (Array []) ld"
    "contributorMap statsData NotArray = contributorMap statsData (Array [])"
    by (simp_all add: contributorMap_def elems_def)
  moreover have "listData None = Array []" "listData (Some (False, body)) = Array []"
    by (simp_all add: listData_def)
  moreover have "weeks (statRecord st) = (case stat_weeks st of None \<Rightarrow> [] | Some ws \<Rightarrow> ws)"
    "totalCommits (statRecord st) = None" "weeks (listedRecord c) = []"
    "totalCommits (listedRecord c)
       = Some (case listed_contributions c of None \<Rightarrow> 0 | Some n \<Rightarrow> n)"
    by (simp_all add: statRecord_def listedRecord_def fromStat_def fromListed_def)
  ultimately show ?thesis
    using map_of_contributorMap [of statsData ld k] distinct_contributorMap [of statsData ld]
    unfolding mergeContributors_def by blast
qed

theorem contributorMap_merge_witness:
  "map_of (contributorMap
      (Array [\<lparr>stat_author = Some \<lparr>author_login = Some ''alice'', author_avatar_url = None,
                         author_html_url = None\<rparr>,
                 stat_weeks = Some [\<lparr>week_w = 0, week_a = 1, week_d = 2, week_c = 3\<rparr>]\<rparr>,
              \<lparr>stat_author = None, stat_weeks = Some []\<rparr>,
              \<lparr>stat_author = Some \<lparr>author_login = Some ''Bob'', author_avatar_url = Some ''u'',
                         author_html_url = None\<rparr>,
                 stat_weeks = Some [\<lparr>week_w = 0, week_a = 4, week_d = 5, week_c = 6\<rparr>]\<rparr>])
      (Array [\<lparr>listed_login = Some ''bob'', listed_avatar_url = None, listed_html_url = None,
                 listed_contributions = Some 7\<rparr>,
              \<lparr>listed_login = Some ''Carol'', listed_avatar_url = None, listed_html_url = None,
                 listed_contributions = Some 3\<rparr>])) ''bob''
     = Some \<lparr>login = ''Bob'', avatar = ''u'', profileUrl = [],
              weeks = [\<lparr>week_w = 0, week_a = 4, week_d = 5, week_c = 6\<rparr>], totalCommits = None\<rparr>
   \<and> mergeContributors
      (Array [\<lparr>stat_author = Some \<lparr>author_login = Some ''alice'', author_avatar_url = None,
                         author_html_url = None\<rparr>,
                 stat_weeks = Some [\<lparr>week_w = 0, week_a = 1, week_d = 2, week_c = 3\<rparr>]\<rparr>,
              \<lparr>stat_author = None, stat_weeks = Some []\<rparr>,
              \<lparr>stat_author = Some \<lparr>author_login = Some ''Bob'', author_avatar_url = Some ''u'',
                         author_html_url = None\<rparr>,
                 stat_weeks = Some [\<lparr>week_w = 0, week_a = 4, week_d = 5, week_c = 6\<rparr>]\<rparr>])
      (Array [\<lparr>listed_login = Some ''bob'', listed_avatar_url = None, listed_html_url = None,
                 listed_contributions = Some 7\<rparr>,
              \<lparr>listed_login = Some ''Carol'', listed_avatar_url = None, listed_html_url = None,
                 listed_contributions = Some 3\<rparr>])
     = [\<lparr>login = ''alice'', avatar = [], profileUrl = [],
          weeks = [\<lparr>week_w = 0, week_a = 1, week_d = 2, week_c = 3\<rparr>], totalCommits = None\<rparr>,
        \<lparr>login = ''Bob'', avatar = ''u'', profileUrl = [],
          weeks = [\<lparr>week_w = 0, week_a = 4, week_d = 5, week_c = 6\<rparr>], totalCommits = None\<rparr>,
        \<lparr>login = ''Carol'', avatar = [], profileUrl = [], weeks = [], totalCommits = Some 3\<rparr>]
   \<and> map_of (addStat
        \<lparr>stat_author = Some \<lparr>author_login = Some ''Bob'', author_avatar_url = Some ''u'',
                         author_html_url = None\<rparr>,
           stat_weeks = Some [\<lparr>week_w = 0, week_a = 4, week_d = 5, week_c = 6\<rparr>]\<rparr>
        [(''bob'', \<lparr>login = ''bob'', avatar = [], profileUrl = [], weeks = [],
                    totalCommits = Some 1\<rparr>)]) ''bob''
     = Some \<lparr>login = ''Bob'', avatar = ''u'', profileUrl = [],
              weeks = [\<lparr>week_w = 0, week_a = 4, week_d = 5, week_c = 6\<rparr>], totalCommits = None\<rparr>
   \<and> addStat \<lparr>stat_author = None, stat_weeks = Some []\<rparr>
        [(''bob'', \<lparr>login = ''bob'', avatar = [], profileUrl = [], weeks = [],
                    totalCommits = Some 1\<rparr>)]
     = [(''bob'', \<lparr>login = ''bob'', avatar = [], profileUrl = [], weeks = [],
                    totalCommits = Some 1\<rparr>)]
   \<and> map_of (addListed
        \<lparr>listed_login = Some ''Carol'', listed_avatar_url = None, listed_html_url = None,
           listed_contributions = Some 3\<rparr>
        [(''bob'', \<lparr>login = ''bob'', avatar = [], profileUrl = [], weeks = [],
                    totalCommits = Some 1\<rparr>)]) ''carol''
     = Some \<lparr>login = ''Carol'', avatar = [], profileUrl = [], weeks = [], totalCommits = Some 3\<rparr>
   \<and> addListed
        \<lparr>listed_login = Some ''BOB'', listed_avatar_url = None, listed_html_url = None,
           listed_contributions = Some 7\<rparr>
        [(''bob'', \<lparr>login = ''bob'', avatar = [], profileUrl = [], weeks = [],
                    totalCommits = Some 1\<rparr>)]
     = [(''bob'', \<lparr>login = ''bob'', avatar = [], profileUrl = [], weeks = [],
                    totalCommits = Some 1\<rparr>)]
   \<and> addListed
        \<lparr>listed_login = None, listed_avatar_url = None, listed_html_url = None,
           listed_contributions = Some 2\<rparr>
        [(''bob'', \<lparr>login = ''bob'', avatar = [], profileUrl = [], weeks = [],
                    totalCommits = Some 1\<rparr>)]
     = [(''bob'', \<lparr>login = ''bob'', avatar = [], profileUrl = [], weeks = [],
                    totalCommits = Some 1\<rparr>)]"
  (is "map_of (contributorMap ?A ?B) ?k = Some ?bob \<and> mergeContributors ?A ?B = ?all
     \<and> map_of (addStat ?st ?m) ?k = Some ?bob \<and> addStat ?noAuthor ?m = ?m
     \<and> map_of (addListed ?carol ?m) ?carolKey = Some ?carolRecord
     \<and> addListed ?bobListed ?m = ?m \<and> addListed ?noLogin ?m = ?m")
proof -
  have keys: "statKey ?st = Some ?k" "statKey ?noAuthor = None" "listedKey ?carol = Some ?carolKey"
    "listedKey ?bobListed = Some ?k" "listedKey ?noLogin = None"
    by (simp_all add: statKey_def statLogin_def listedKey_def toLowerCase_def lowerChar_def)
  have recs: "statRecord ?st = ?bob" "listedRecord ?carol = ?carolRecord"
    by (simp_all add: statRecord_def statLogin_def fromStat_def listedRecord_def fromListed_def
        orEmpty_def)
  have "map_of (contributorMap ?A ?B) ?k =
     (case find (\<lambda>st. statKey st = Some ?k) (rev (elems ?A)) of
        Some st \<Rightarrow> Some (statRecord st)
      | None \<Rightarrow> map_option listedRecord (find (\<lambda>c. listedKey c = Some ?k) (elems ?B)))"
    using contributorMap_merge [where statsData = ?A and ld = ?B and k = ?k] by blast
  also have "\<dots> = Some ?bob"
    by (simp add: elems_def statKey_def statLogin_def statRecord_def fromStat_def orEmpty_def
        toLowerCase_def lowerChar_def)
  finally have one: "map_of (contributorMap ?A ?B) ?k = Some ?bob" .
  have two: "mergeContributors ?A ?B = ?all"
    by (simp add: mergeContributors_def contributorMap_def elems_def addStat_def addListed_def
        statLogin_def fromStat_def fromListed_def orEmpty_def map_has_def toLowerCase_def
        lowerChar_def Let_def)
  have "map_of (addStat ?st ?m) ?k = Some (statRecord ?st)"
    using contributorMap_merge [where st = ?st and k = ?k and m = ?m] keys(1) by blast
  then have three: "map_of (addStat ?st ?m) ?k = Some ?bob"
    by (simp only: recs)
  have four: "addStat ?noAuthor ?m = ?m"
    using contributorMap_merge [where st = ?noAuthor and m = ?m] keys(2) by blast
  have "map_of ?m ?carolKey = None"
    by simp
  then have "map_of (addListed ?carol ?m) ?carolKey = Some (listedRecord ?carol)"
    using contributorMap_merge [where c = ?carol and k = ?carolKey and m = ?m] keys(3) by blast
  then have five: "map_of (addListed ?carol ?m) ?carolKey = Some ?carolRecord"
    by (simp only: recs)
  have "map_of ?m ?k \<noteq> None"
    by simp
  then have six: "addListed ?bobListed ?m = ?m"
    using contributorMap_merge [where c = ?bobListed and k = ?k and m = ?m] keys(4) by blast
  have seven: "addListed ?noLogin ?m = ?m"
    using contributorMap_merge [where c = ?noLogin and m = ?m] keys(5) by blast
  show ?thesis
    by (intro conjI one two three four five six seven)
qed

lemma getWeekStartTimestamp_eq:
  "getWeekStartTimestamp date
     = (date div 86400000 - (date div 86400000 + 4) mod 7) * 86400"
proof -
  define q where "q = date div 86400000"
  have d0: "setUTCHours0 date = q * 86400000"
    unfolding setUTCHours0_def msPerDay_def q_def
    by (simp add: minus_mod_eq_div_mult)
  have "getUTCDay (q * 86400000) = (q + 4) mod 7"
    by (simp add: getUTCDay_def msPerDay_def)
  then have "getWeekStartTimestamp date = ((q - (q + 4) mod 7) * 86400 * 1000) div 1000"
    by (simp add: getWeekStartTimestamp_def d0 Let_def msPerDay_def algebra_simps)
  then show ?thesis
    by (simp add: q_def)
qed

lemma getWeekStartTimestamp_sunday:
  "getWeekStartTimestamp date mod 86400 = 0
   \<and> (getWeekStartTimestamp date div 86400 + 4) mod 7 = 0
   \<and> getWeekStartTimestamp date * 1000 \<le> date
   \<and> date < (getWeekStartTimestamp date + 7 * 86400) * 1000"
proof -
  define q where "q = date div 86400000"
  define r where "r = date mod 86400000"
  define j where "j = (q + 4) mod 7"
  have date: "date = q * 86400000 + r" and r: "0 \<le> r" "r < 86400000"
    by (simp_all add: q_def r_def)
  have j: "0 \<le> j" "j < 7" by (simp_all add: j_def)
  have g: "getWeekStartTimestamp date = (q - j) * 86400"
    by (simp add: getWeekStartTimestamp_eq q_def j_def)
  have "(q - j + 4) mod 7 = 0"
    unfolding j_def by presburger
  then have "((q - j) * 86400 div 86400 + 4) mod 7 = 0"
    by simp
  moreover have "(q - j) * 86400 mod 86400 = 0"
    by simp
  moreover have "(q - j) * 86400 * 1000 \<le> date"
    using r j unfolding date by simp
  moreover have "date < ((q - j) * 86400 + 7 * 86400) * 1000"
    using r j unfolding date by simp
  ultimately show ?thesis
    unfolding g by blast
qed

lemma addDetail_valid:
  "addDetail d m =
     (case validDetail d of
        None \<Rightarrow> m
      | Some (weekStart, adds, dels) \<Rightarrow>
          AList.map_entry weekStart
            (\<lambda>week. week\<lparr>week_a := week_a week + adds, week_d := week_d week + dels,
                         week_c := week_c week + 1\<rparr>)
            (if map_has m weekStart then m
             else AList.update weekStart
                    \<lparr>week_w = weekStart, week_a = 0, week_d = 0, week_c = 0\<rparr> m))"
  by (simp add: addDetail_def validDetail_def Let_def split: option.splits)

lemma map_of_addDetail:
  "map_of (addDetail d m) k =
     (case validDetail d of
        None \<Rightarrow> map_of m k
      | Some (weekStart, adds, dels) \<Rightarrow>
          if weekStart = k
          then Some (addTo (case map_of m k of
                              None \<Rightarrow> \<lparr>week_w = k, week_a = 0, week_d = 0, week_c = 0\<rparr>
                            | Some wk \<Rightarrow> wk) [(adds, dels)])
          else map_of m k)"
  by (auto simp: addDetail_valid map_of_map_entry update_conv map_has_def addTo_def
      split: option.splits)

lemma distinct_addDetail: "distinct (map fst m) \<Longrightarrow> distinct (map fst (addDetail d m))"
  by (simp add: addDetail_valid distinct_map_entry distinct_update split: option.splits prod.splits)

lemma detailsOfWeek_Cons:
  "detailsOfWeek k (d # ds) =
     (case validDetail d of
        None \<Rightarrow> detailsOfWeek k ds
      | Some (weekStart, adds, dels) \<Rightarrow>
          if weekStart = k then (adds, dels) # detailsOfWeek k ds else detailsOfWeek k ds)"
  by (simp add: detailsOfWeek_def List.map_filter_simps split: option.splits)

lemma addTo_addTo: "addTo (addTo wk [v]) vs = addTo wk (v # vs)"
  by (simp add: addTo_def)

lemma addTo_Nil: "addTo wk [] = wk"
  by (simp add: addTo_def)

lemma map_of_fold_addDetail:
  "map_of (fold addDetail ds m) k =
     (case map_of m k of
        Some wk \<Rightarrow> Some (addTo wk (detailsOfWeek k ds))
      | None \<Rightarrow>
          if detailsOfWeek k ds = [] then None
          else Some (addTo \<lparr>week_w = k, week_a = 0, week_d = 0, week_c = 0\<rparr>
                       (detailsOfWeek k ds)))"
proof (induction ds arbitrary: m)
  case Nil
  then show ?case
    by (simp add: detailsOfWeek_def List.map_filter_simps addTo_Nil split: option.splits)
next
  case (Cons d ds)
  have "map_of (fold addDetail (d # ds) m) k = map_of (fold addDetail ds (addDetail d m)) k"
    by simp
  also have "\<dots> = (case map_of (addDetail d m) k of
        Some wk \<Rightarrow> Some (addTo wk (detailsOfWeek k ds))
      | None \<Rightarrow>
          if detailsOfWeek k ds = [] then None
          else Some (addTo \<lparr>week_w = k, week_a = 0, week_d = 0, week_c = 0\<rparr>
                       (detailsOfWeek k ds)))"
    by (rule Cons.IH)
  finally show ?case
    by (simp add: map_of_addDetail detailsOfWeek_Cons addTo_addTo split: option.splits prod.splits)
qed

lemma map_of_buildWeekMap: "map_of (buildWeekMap details) k = weekAggregate k details"
  by (simp add: buildWeekMap_def map_of_fold_addDetail weekAggregate_def addTo_def Let_def)

lemma distinct_buildWeekMap: "distinct (map fst (buildWeekMap details))"
proof -
  have "distinct (map fst m) \<Longrightarrow> distinct (map fst (fold addDetail ds m))" for ds m
    by (induction ds arbitrary: m) (simp_all add: distinct_addDetail)
  then show ?thesis by (simp add: buildWeekMap_def)
qed

lemma buildWeekMap_key:
  assumes "(k, wk) \<in> set (buildWeekMap details)"
  shows "week_w wk = k"
proof -
  have "map_of (buildWeekMap details) k = Some wk"
    using assms distinct_buildWeekMap by simp
  then show ?thesis
    by (auto simp: map_of_buildWeekMap weekAggregate_def Let_def split: if_splits)
qed

lemma length_update_first: "length (update_first P f xs) = length xs"
  by (induction xs) simp_all

lemma nth_update_first:
  "i < length xs \<Longrightarrow>
     update_first P f xs ! i = (if P (xs ! i) \<and> (\<forall>j<i. \<not> P (xs ! j)) then f (xs ! i) else xs ! i)"
proof (induction xs arbitrary: i)
  case Nil
  then show ?case by simp
next
  case (Cons x xs)
  show ?case
  proof (cases i)
    case 0
    then show ?thesis by simp
  next
    case (Suc n)
    then have n: "n < length xs" using Cons.prems by simp
    show ?thesis
    proof (cases "P x")
      case True
      then have "\<not> (\<forall>j<Suc n. \<not> P ((x # xs) ! j))" by auto
      then have "\<not> (P ((x # xs) ! i) \<and> (\<forall>j<i. \<not> P ((x # xs) ! j)))"
        using Suc by blast
      then show ?thesis using True Suc by (simp only: if_False update_first.simps if_True nth_Cons_Suc)
    next
      case False
      have "(\<forall>j<Suc n. \<not> P ((x # xs) ! j)) \<longleftrightarrow> (\<forall>j<n. \<not> P (xs ! j))"
        using False by (auto simp: less_Suc_eq_0_disj)
      then show ?thesis using False Suc Cons.IH [OF n] by auto
    qed
  qed
qed

lemma map_week_w_update_first:
  "map week_w (update_first P (\<lambda>existing. existing\<lparr>week_a := x, week_d := y\<rparr>) ws) = map week_w ws"
  by (induction ws) simp_all

lemma mergeWeek_present:
  assumes "k \<in> week_w ` set ws"
  shows "mergeWeek (k, cw) ws =
     update_first (\<lambda>w. week_w w = k)
       (\<lambda>existing. existing\<lparr>week_a := week_a cw, week_d := week_d cw\<rparr>) ws"
proof -
  have "find (\<lambda>w. week_w w = k) ws \<noteq> None"
    using assms by (auto simp: find_None_iff)
  then show ?thesis
    by (auto simp: mergeWeek_def)
qed

lemma mergeWeek_absent:
  assumes "k \<notin> week_w ` set ws"
  shows "mergeWeek (k, cw) ws = ws @ [cw]"
proof -
  have "find (\<lambda>w. week_w w = k) ws = None"
    using assms by (auto simp: find_None_iff)
  then show ?thesis
    by (simp add: mergeWeek_def)
qed

lemma firstWithKey_iff:
  assumes "i \<le> length ws"
  shows "firstWithKey ws i \<longleftrightarrow> (\<forall>j<i. week_w (ws ! j) \<noteq> week_w (ws ! i))"
proof -
  have "set (map week_w (take i ws)) = {week_w (ws ! j) | j. j < i}"
  proof -
    have "set (take i ws) = {ws ! j | j. j < i}"
      using assms by (auto simp: in_set_conv_nth) (metis min.absorb2 nth_take)+
    then show ?thesis by auto
  qed
  then show ?thesis
    unfolding firstWithKey_def by auto
qed

lemma mergedExisting_present:
  assumes i: "i < length ws" and rest: "map_of rest k = None"
  shows "mergedExisting rest
           (update_first (\<lambda>w. week_w w = k)
              (\<lambda>existing. existing\<lparr>week_a := week_a cw, week_d := week_d cw\<rparr>) ws) i
         = mergedExisting ((k, cw) # rest) ws i"
proof -
  define ws1 where "ws1 = update_first (\<lambda>w. week_w w = k)
      (\<lambda>existing. existing\<lparr>week_a := week_a cw, week_d := week_d cw\<rparr>) ws"
  have len: "length ws1 = length ws"
    by (simp add: ws1_def length_update_first)
  have keys: "week_w (ws1 ! j) = week_w (ws ! j)" if "j < length ws" for j
  proof -
    have "map week_w ws1 ! j = map week_w ws ! j"
      by (simp only: ws1_def map_week_w_update_first)
    then show ?thesis using that len by simp
  qed
  have first: "firstWithKey ws1 i = firstWithKey ws i"
    using i keys by (simp add: firstWithKey_iff len)
  have nth: "ws1 ! i = (if week_w (ws ! i) = k \<and> (\<forall>j<i. week_w (ws ! j) \<noteq> k)
      then (ws ! i)\<lparr>week_a := week_a cw, week_d := week_d cw\<rparr> else ws ! i)"
    unfolding ws1_def using i by (rule nth_update_first)
  show ?thesis
  proof (cases "week_w (ws ! i) = k")
    case True
    then have f: "firstWithKey ws i \<longleftrightarrow> (\<forall>j<i. week_w (ws ! j) \<noteq> k)"
      using i by (simp add: firstWithKey_iff)
    show ?thesis
      using True rest f nth keys [OF i] first
      by (simp add: mergedExisting_def ws1_def [symmetric] split: option.splits)
  next
    case False
    then show ?thesis
      using nth keys [OF i] first
      by (simp add: mergedExisting_def ws1_def [symmetric] split: option.splits)
  qed
qed

lemma mergedExisting_absent:
  assumes i: "i < length ws" and k: "k \<notin> week_w ` set ws"
  shows "mergedExisting rest (ws @ [cw]) i = mergedExisting ((k, cw) # rest) ws i"
proof -
  have "week_w (ws ! i) \<noteq> k"
    using i k by (metis imageI nth_mem)
  moreover have "firstWithKey (ws @ [cw]) i = firstWithKey ws i"
    using i by (simp add: firstWithKey_def nth_append)
  ultimately show ?thesis
    using i by (simp add: mergedExisting_def nth_append split: option.splits)
qed

lemma mergedExisting_appended:
  assumes "map_of rest (week_w cw) = None"
  shows "mergedExisting rest (ws @ [cw]) (length ws) = cw"
  using assms by (simp add: mergedExisting_def)

lemma fold_mergeWeek:
  assumes "distinct (map fst wm)" and "\<forall>p \<in> set wm. week_w (snd p) = fst p"
  shows "fold mergeWeek wm ws = spec_merge wm ws"
  using assms
proof (induction wm arbitrary: ws)
  case Nil
  have "map (mergedExisting [] ws) [0 ..< length ws] = map ((!) ws) [0 ..< length ws]"
    by (simp add: mergedExisting_def)
  then show ?case
    by (simp add: spec_merge_def appendedWeeks_def map_nth)
next
  case (Cons p rest)
  obtain k cw where p: "p = (k, cw)" by (cases p)
  have kw: "week_w cw = k" using Cons.prems(2) p by simp
  have fresh: "map_of rest k = None"
    using Cons.prems(1) p by (simp add: map_of_eq_None_iff)
  have notin: "k \<notin> fst ` set rest"
    using Cons.prems(1) p by simp
  have IH: "fold mergeWeek rest ws' = spec_merge rest ws'" for ws'
    using Cons.IH Cons.prems by simp
  show ?case
  proof (cases "k \<in> week_w ` set ws")
    case True
    define ws1 where "ws1 = update_first (\<lambda>w. week_w w = k)
        (\<lambda>existing. existing\<lparr>week_a := week_a cw, week_d := week_d cw\<rparr>) ws"
    have step: "mergeWeek (k, cw) ws = ws1"
      unfolding ws1_def using True by (rule mergeWeek_present)
    have len: "length ws1 = length ws"
      by (simp add: ws1_def length_update_first)
    have "map week_w ws1 = map week_w ws"
      by (simp only: ws1_def map_week_w_update_first)
    then have "set (map week_w ws1) = set (map week_w ws)" by simp
    then have keys: "week_w ` set ws1 = week_w ` set ws" by simp
    have app: "appendedWeeks rest ws1 = appendedWeeks ((k, cw) # rest) ws"
      using True by (simp add: appendedWeeks_def keys)
    have "map (mergedExisting rest ws1) [0 ..< length ws]
        = map (mergedExisting ((k, cw) # rest) ws) [0 ..< length ws]"
      unfolding ws1_def using fresh by (intro map_cong refl mergedExisting_present) simp_all
    then have "spec_merge rest ws1 = spec_merge ((k, cw) # rest) ws"
      by (simp add: spec_merge_def len app)
    then show ?thesis
      by (simp add: p step IH)
  next
    case False
    have step: "mergeWeek (k, cw) ws = ws @ [cw]"
      using False by (rule mergeWeek_absent)
    have filt: "filter (\<lambda>p. fst p \<notin> week_w ` set (ws @ [cw])) rest
        = filter (\<lambda>p. fst p \<notin> week_w ` set ws) rest"
    proof (intro filter_cong refl)
      fix q assume "q \<in> set rest"
      then have "fst q \<noteq> k" using notin by force
      then show "(fst q \<notin> week_w ` set (ws @ [cw])) = (fst q \<notin> week_w ` set ws)"
        using kw by auto
    qed
    have app: "cw # appendedWeeks rest (ws @ [cw]) = appendedWeeks ((k, cw) # rest) ws"
      unfolding appendedWeeks_def filt using False by simp
    have old: "map (mergedExisting rest (ws @ [cw])) [0 ..< length ws]
        = map (mergedExisting ((k, cw) # rest) ws) [0 ..< length ws]"
      using False by (intro map_cong refl mergedExisting_absent) simp_all
    have new: "mergedExisting rest (ws @ [cw]) (length ws) = cw"
      using fresh kw by (intro mergedExisting_appended) simp
    have "spec_merge rest (ws @ [cw]) = spec_merge ((k, cw) # rest) ws"
      using old new app by (simp add: spec_merge_def)
    then show ?thesis
      by (simp add: p step IH)
  qed
qed

lemma fillDiffStats_success:
  assumes "commitList \<noteq> []"
  shows "fillDiffStats detailOf (Response True (Json (Array commitList))) c
     = mergeWeekMap (buildWeekMap (map detailOf (take 10 commitList))) c"
  using assms by (simp add: fillDiffStats_def fillDiffStats_try_def Let_def)

lemma weeks_mergeWeekMap_buildWeekMap:
  "weeks (mergeWeekMap (buildWeekMap details) c) =
     (if weeks c = [] then map snd (buildWeekMap details)
      else spec_merge (buildWeekMap details) (weeks c))"
proof -
  have "fold mergeWeek (buildWeekMap details) ws = spec_merge (buildWeekMap details) ws" for ws
  proof (rule fold_mergeWeek)
    show "distinct (map fst (buildWeekMap details))"
      by (rule distinct_buildWeekMap)
    show "\<forall>p\<in>set (buildWeekMap details). week_w (snd p) = fst p"
      using buildWeekMap_key [of _ _ details] by auto
  qed
  then show ?thesis
    by (simp add: mergeWeekMap_def)
qed

lemma mergedExisting_keeps:
  "week_c (mergedExisting wm ws i) = week_c (ws ! i)
   \<and> week_w (mergedExisting wm ws i) = week_w (ws ! i)"
  by (simp add: mergedExisting_def split: option.splits)

lemma mergeWeekMap_frame:
  "login (mergeWeekMap wm c) = login c \<and> avatar (mergeWeekMap wm c) = avatar c
   \<and> profileUrl (mergeWeekMap wm c) = profileUrl c
   \<and> totalCommits (mergeWeekMap wm c) = totalCommits c"
  by (simp add: mergeWeekMap_def)

text \<open>
  Claim C4. When the commit list is not empty, the details that were fetched and have
  both a diff-stat and a date are accumulated per week: the week map holds, under each
  week key, the sums of additions and deletions and the number of those details. If the
  contributor has no week buckets, its weeks become the buckets of the week map.
  Otherwise the first existing bucket with the key of a new bucket gets the additions
  and deletions of the new bucket and keeps its commit counter and week start, every
  other existing bucket is unchanged, and the new buckets with no matching key are
  appended. The week key of a date is the most recent Sunday 00:00 UTC on or before
  it, in whole seconds.
\<close>

theorem fillDiffStats_weeks:
  "(commitList \<noteq> [] \<longrightarrow>
      map_of (buildWeekMap (map detailOf (take 10 commitList))) k
        = weekAggregate k (map detailOf (take 10 commitList))
      \<and> distinct (map fst (buildWeekMap (map detailOf (take 10 commitList))))
      \<and> (weeks c = [] \<longrightarrow>
            weeks (fillDiffStats detailOf (Response True (Json (Array commitList))) c)
              = map snd (buildWeekMap (map detailOf (take 10 commitList))))
      \<and> (weeks c \<noteq> [] \<longrightarrow>
            weeks (fillDiffStats detailOf (Response True (Json (Array commitList))) c)
              = map (mergedExisting (buildWeekMap (map detailOf (take 10 commitList))) (weeks c))
                  [0 ..< length (weeks c)]
                @ appendedWeeks (buildWeekMap (map detailOf (take 10 commitList))) (weeks c))
      \<and> week_c (mergedExisting (buildWeekMap (map detailOf (take 10 commitList))) (weeks c) i)
          = week_c (weeks c ! i)
      \<and> week_w (mergedExisting (buildWeekMap (map detailOf (take 10 commitList))) (weeks c) i)
          = week_w (weeks c ! i))
   \<and> getWeekStartTimestamp date mod 86400 = 0
   \<and> (getWeekStartTimestamp date div 86400 + 4) mod 7 = 0
   \<and> getWeekStartTimestamp date * 1000 \<le> date
   \<and> date < (getWeekStartTimestamp date + 7 * 86400) * 1000"
proof -
  let ?wm = "buildWeekMap (map detailOf (take 10 commitList))"
  have "weeks (fillDiffStats detailOf (Response True (Json (Array commitList))) c)
      = (if weeks c = [] then map snd ?wm else spec_merge ?wm (weeks c))"
    if "commitList \<noteq> []"
    using fillDiffStats_success [OF that, of detailOf c]
    by (simp only: weeks_mergeWeekMap_buildWeekMap)
  then show ?thesis
    using map_of_buildWeekMap [of "map detailOf (take 10 commitList)" k]
      distinct_buildWeekMap [of "map detailOf (take 10 commitList)"]
      mergedExisting_keeps [of ?wm "weeks c" i]
      getWeekStartTimestamp_sunday [of date]
    by (simp add: spec_merge_def)
qed

theorem fillDiffStats_weeks_witness:
  "weeks (fillDiffStats
      (map_of
        [(''s1'', \<lparr>detail_stats = Some \<lparr>stats_additions = Some 5, stats_deletions = Some 2\<rparr>,
                   detail_date = Some 1700000000000\<rparr>),
         (''s2'', \<lparr>detail_stats = Some \<lparr>stats_additions = None, stats_deletions = Some 3\<rparr>,
                   detail_date = Some 1700000100000\<rparr>),
         (''s3'', \<lparr>detail_stats = Some \<lparr>stats_additions = Some 10, stats_deletions = Some 0\<rparr>,
                   detail_date = Some 1699800000000\<rparr>),
         (''s4'', \<lparr>detail_stats = Some \<lparr>stats_additions = Some 1, stats_deletions = Some 1\<rparr>,
                   detail_date = Some 1700400000000\<rparr>),
         (''s5'', \<lparr>detail_stats = None, detail_date = Some 1700400000000\<rparr>)])
      (Response True (Json (Array [''s1'', ''s2'', ''s9'', ''s3''])))
      \<lparr>login = ''dev'', avatar = [], profileUrl = [], weeks = [], totalCommits = Some 10\<rparr>)
     = [\<lparr>week_w = 1699747200, week_a = 15, week_d = 5, week_c = 3\<rparr>]
   \<and> weeks (fillDiffStats
      (map_of
        [(''s1'', \<lparr>detail_stats = Some \<lparr>stats_additions = Some 5, stats_deletions = Some 2\<rparr>,
                   detail_date = Some 1700000000000\<rparr>),
         (''s2'', \<lparr>detail_stats = Some \<lparr>stats_additions = None, stats_deletions = Some 3\<rparr>,
                   detail_date = Some 1700000100000\<rparr>),
         (''s3'', \<lparr>detail_stats = Some \<lparr>stats_additions = Some 10, stats_deletions = Some 0\<rparr>,
                   detail_date = Some 1699800000000\<rparr>),
         (''s4'', \<lparr>detail_stats = Some \<lparr>stats_additions = Some 1, stats_deletions = Some 1\<rparr>,
                   detail_date = Some 1700400000000\<rparr>),
         (''s5'', \<lparr>detail_stats = None, detail_date = Some 1700400000000\<rparr>)])
      (Response True (Json (Array [''s1'', ''s5'', ''s4''])))
      \<lparr>login = ''dev'', avatar = [], profileUrl = [],
        weeks = [\<lparr>week_w = 1699747200, week_a = 0, week_d = 0, week_c = 7\<rparr>,
                 \<lparr>week_w = 1699142400, week_a = 0, week_d = 0, week_c = 3\<rparr>],
        totalCommits = None\<rparr>)
     = [\<lparr>week_w = 1699747200, week_a = 5, week_d = 2, week_c = 7\<rparr>,
        \<lparr>week_w = 1699142400, week_a = 0, week_d = 0, week_c = 3\<rparr>,
        \<lparr>week_w = 1700352000, week_a = 1, week_d = 1, week_c = 1\<rparr>]"
  (is "weeks (fillDiffStats ?detailOf (Response True (Json (Array ?l1))) ?c1) = ?r1
     \<and> weeks (fillDiffStats ?detailOf (Response True (Json (Array ?l2))) ?c2) = ?r2")
proof -
  have w1: "getWeekStartTimestamp 1700000000000 = 1699747200"
    "getWeekStartTimestamp 1700000100000 = 1699747200"
    "getWeekStartTimestamp 1699800000000 = 1699747200"
    "getWeekStartTimestamp 1700400000000 = 1700352000"
    by (simp_all add: getWeekStartTimestamp_def setUTCHours0_def getUTCDay_def msPerDay_def)
  have m1: "buildWeekMap (map ?detailOf (take 10 ?l1))
      = [(1699747200, \<lparr>week_w = 1699747200, week_a = 15, week_d = 5, week_c = 3\<rparr>)]"
    by (simp add: buildWeekMap_def addDetail_def map_has_def orZero_def w1)
  have m2: "buildWeekMap (map ?detailOf (take 10 ?l2))
      = [(1699747200, \<lparr>week_w = 1699747200, week_a = 5, week_d = 2, week_c = 1\<rparr>),
         (1700352000, \<lparr>week_w = 1700352000, week_a = 1, week_d = 1, week_c = 1\<rparr>)]"
    by (simp add: buildWeekMap_def addDetail_def map_has_def orZero_def w1)
  have "weeks (fillDiffStats ?detailOf (Response True (Json (Array ?l1))) ?c1)
      = map snd (buildWeekMap (map ?detailOf (take 10 ?l1)))"
    using fillDiffStats_weeks [of ?l1 ?detailOf 0 ?c1 0 0] by simp
  then have one: "weeks (fillDiffStats ?detailOf (Response True (Json (Array ?l1))) ?c1) = ?r1"
    by (simp only: m1) simp
  have "weeks (fillDiffStats ?detailOf (Response True (Json (Array ?l2))) ?c2)
      = map (mergedExisting (buildWeekMap (map ?detailOf (take 10 ?l2))) (weeks ?c2))
          [0 ..< length (weeks ?c2)]
        @ appendedWeeks (buildWeekMap (map ?detailOf (take 10 ?l2))) (weeks ?c2)"
    using fillDiffStats_weeks [of ?l2 ?detailOf 0 ?c2 0 0] by simp
  then have two: "weeks (fillDiffStats ?detailOf (Response True (Json (Array ?l2))) ?c2) = ?r2"
    by (simp only: m2) (simp add: mergedExisting_def firstWithKey_def appendedWeeks_def upt_rec)
  show ?thesis using one two by blast
qed

lemma fillDiffStats_abandoned: "abandoned r \<Longrightarrow> fillDiffStats detailOf r c = c"
  by (auto simp: abandoned_def fillDiffStats_def fillDiffStats_try_def
      split: response.splits body.splits json.splits)

lemma fillDiffStats_caught:
  "fillDiffStats_try detailOf r c = Inl e \<Longrightarrow> fillDiffStats detailOf r c = c"
  by (simp add: fillDiffStats_def)

lemma nth_backfill:
  "i < length cs \<Longrightarrow>
     backfill commitsOf detailsOf cs ! i =
       (if qualifies (cs ! i)
        then fillDiffStats (detailsOf (login (cs ! i))) (commitsOf (login (cs ! i))) (cs ! i)
        else cs ! i)"
  by (simp add: backfill_def)

text \<open>
  Claim C8. If the backfill of a contributor is abandoned, or an exception is thrown in
  it, that contributor is returned as it was. The fetch still succeeds with the list of
  all contributors, and what becomes of a contributor depends on the response to its
  own request only.
\<close>

theorem fillDiffStats_failure_isolated:
  "(abandoned r \<longrightarrow> fillDiffStats detailOf r c = c)
   \<and> (fillDiffStats_try detailOf r c = Inl e \<longrightarrow> fillDiffStats detailOf r c = c)
   \<and> (contributorMap statsData (listData listResponse) \<noteq> [] \<longrightarrow>
        fetchContributorStats statsData listResponse commitsOf detailsOf
          = Success (backfill commitsOf detailsOf
                       (mergeContributors statsData (listData listResponse))))
   \<and> length (backfill commitsOf detailsOf cs) = length cs
   \<and> (i < length cs \<and> abandoned (commitsOf (login (cs ! i)))
        \<longrightarrow> backfill commitsOf detailsOf cs ! i = cs ! i)
   \<and> (i < length cs \<and> commitsOf' (login (cs ! i)) = commitsOf (login (cs ! i))
          \<and> detailsOf' (login (cs ! i)) = detailsOf (login (cs ! i))
        \<longrightarrow> backfill commitsOf' detailsOf' cs ! i = backfill commitsOf detailsOf cs ! i)"
proof -
  have "backfill commitsOf detailsOf cs ! i = cs ! i"
    if "i < length cs" "abandoned (commitsOf (login (cs ! i)))"
    using that by (simp add: nth_backfill fillDiffStats_abandoned)
  moreover have "backfill commitsOf' detailsOf' cs ! i = backfill commitsOf detailsOf cs ! i"
    if "i < length cs" "commitsOf' (login (cs ! i)) = commitsOf (login (cs ! i))"
      "detailsOf' (login (cs ! i)) = detailsOf (login (cs ! i))"
    using that by (simp add: nth_backfill)
  moreover have "fetchContributorStats statsData listResponse commitsOf detailsOf
          = Success (backfill commitsOf detailsOf
                       (mergeContributors statsData (listData listResponse)))"
    if "contributorMap statsData (listData listResponse) \<noteq> []"
    using that by (simp add: fetchContributorStats_def mergeContributors_def Let_def)
  moreover have "length (backfill commitsOf detailsOf cs) = length cs"
    by (simp add: backfill_def)
  ultimately show ?thesis
    using fillDiffStats_abandoned [of r detailOf c] fillDiffStats_caught [of detailOf r c e]
    by blast
qed

theorem fillDiffStats_failure_isolated_witness:
  "backfill
      (\<lambda>l. if l = ''dev'' then Response True (Json (Array [''s1''])) else FetchRejected)
      (\<lambda>l. map_of
        [(''s1'', \<lparr>detail_stats = Some \<lparr>stats_additions = Some 5, stats_deletions = Some 2\<rparr>,
                   detail_date = Some 1700000000000\<rparr>)])
      [\<lparr>login = ''ghost'', avatar = [], profileUrl = [], weeks = [], totalCommits = Some 4\<rparr>,
       \<lparr>login = ''dev'', avatar = [], profileUrl = [], weeks = [], totalCommits = Some 10\<rparr>]
     = [\<lparr>login = ''ghost'', avatar = [], profileUrl = [], weeks = [], totalCommits = Some 4\<rparr>,
        \<lparr>login = ''dev'', avatar = [], profileUrl = [],
          weeks = [\<lparr>week_w = 1699747200, week_a = 5, week_d = 2, week_c = 1\<rparr>],
          totalCommits = Some 10\<rparr>]
   \<and> fillDiffStats Map.empty (Response True JsonRejected)
        \<lparr>login = ''ghost'', avatar = [], profileUrl = [], weeks = [], totalCommits = Some 4\<rparr>
     = \<lparr>login = ''ghost'', avatar = [], profileUrl = [], weeks = [], totalCommits = Some 4\<rparr>
   \<and> fillDiffStats Map.empty (Response True (Json (Array [])))
        \<lparr>login = ''ghost'', avatar = [], profileUrl = [], weeks = [], totalCommits = Some 4\<rparr>
     = \<lparr>login = ''ghost'', avatar = [], profileUrl = [], weeks = [], totalCommits = Some 4\<rparr>
   \<and> fetchContributorStats NotArray
        (Some (True, Array
          [\<lparr>listed_login = Some ''ghost'', listed_avatar_url = None, listed_html_url = None,
              listed_contributions = Some 4\<rparr>,
           \<lparr>listed_login = Some ''dev'', listed_avatar_url = None, listed_html_url = None,
              listed_contributions = Some 10\<rparr>]))
        (\<lambda>l. if l = ''dev'' then Response True (Json (Array [''s1''])) else FetchRejected)
        (\<lambda>l. map_of
          [(''s1'', \<lparr>detail_stats = Some \<lparr>stats_additions = Some 5, stats_deletions = Some 2\<rparr>,
                     detail_date = Some 1700000000000\<rparr>)])
     = Success
        [\<lparr>login = ''ghost'', avatar = [], profileUrl = [], weeks = [], totalCommits = Some 4\<rparr>,
         \<lparr>login = ''dev'', avatar = [], profileUrl = [],
           weeks = [\<lparr>week_w = 1699747200, week_a = 5, week_d = 2, week_c = 1\<rparr>],
           totalCommits = Some 10\<rparr>]
   \<and> backfill
      (\<lambda>l. Response True (Json (Array [''s1''])))
      (\<lambda>l. map_of
        [(''s1'', \<lparr>detail_stats = Some \<lparr>stats_additions = Some 5, stats_deletions = Some 2\<rparr>,
                   detail_date = Some 1700000000000\<rparr>)])
      [\<lparr>login = ''ghost'', avatar = [], profileUrl = [], weeks = [], totalCommits = Some 4\<rparr>,
       \<lparr>login = ''dev'', avatar = [], profileUrl = [], weeks = [], totalCommits = Some 10\<rparr>] ! 1
     = \<lparr>login = ''dev'', avatar = [], profileUrl = [],
          weeks = [\<lparr>week_w = 1699747200, week_a = 5, week_d = 2, week_c = 1\<rparr>],
          totalCommits = Some 10\<rparr>"
  (is "backfill ?commitsOf ?detailsOf ?cs = ?res
     \<and> fillDiffStats Map.empty ?r1 ?c = ?c
     \<and> fillDiffStats Map.empty ?r2 ?c = ?c
     \<and> fetchContributorStats NotArray ?listResponse ?commitsOf ?detailsOf = Success ?res
     \<and> backfill ?commitsOf' ?detailsOf ?cs ! 1 = ?dev")
proof -
  have ab: "abandoned (?commitsOf (login (?cs ! 0)))"
    by (simp add: abandoned_def)
  have len: "length (backfill ?commitsOf ?detailsOf ?cs) = 2"
    using fillDiffStats_failure_isolated [where commitsOf = ?commitsOf
        and detailsOf = ?detailsOf and cs = ?cs] by simp
  have zero: "backfill ?commitsOf ?detailsOf ?cs ! 0 = ?cs ! 0"
    using fillDiffStats_failure_isolated [where commitsOf = ?commitsOf
        and detailsOf = ?detailsOf and cs = ?cs and i = 0] ab by simp
  have w1: "getWeekStartTimestamp 1700000000000 = 1699747200"
    by (simp add: getWeekStartTimestamp_def setUTCHours0_def getUTCDay_def msPerDay_def)
  have one: "backfill ?commitsOf ?detailsOf ?cs ! 1 = ?dev"
    by (simp add: backfill_def qualifies_def reduce_sum_def fillDiffStats_def
        fillDiffStats_try_def buildWeekMap_def addDetail_def map_has_def orZero_def w1
        mergeWeekMap_def)
  have all: "backfill ?commitsOf ?detailsOf ?cs = ?res"
  proof (rule nth_equalityI)
    show "length (backfill ?commitsOf ?detailsOf ?cs) = length ?res"
      using len by simp
    fix i assume "i < length (backfill ?commitsOf ?detailsOf ?cs)"
    then have "i = 0 \<or> i = 1" using len by auto
    then show "backfill ?commitsOf ?detailsOf ?cs ! i = ?res ! i"
      using zero one by auto
  qed
  have "fillDiffStats_try Map.empty ?r1 ?c = Inl SyntaxError"
    by (simp add: fillDiffStats_try_def)
  then have caught: "fillDiffStats Map.empty ?r1 ?c = ?c"
    using fillDiffStats_failure_isolated [where r = ?r1 and detailOf = Map.empty and c = ?c
        and e = SyntaxError]
    by blast
  have "abandoned ?r2"
    by (simp add: abandoned_def)
  then have none: "fillDiffStats Map.empty ?r2 ?c = ?c"
    using fillDiffStats_failure_isolated [where r = ?r2 and detailOf = Map.empty and c = ?c]
    by blast
  have cm: "contributorMap NotArray (listData ?listResponse)
      = [(''ghost'', ?cs ! 0), (''dev'', ?cs ! 1)]"
    by (simp add: contributorMap_def listData_def elems_def addListed_def fromListed_def
        orEmpty_def map_has_def toLowerCase_def lowerChar_def Let_def)
  then have "contributorMap NotArray (listData ?listResponse) \<noteq> []"
    by simp
  then have "fetchContributorStats NotArray ?listResponse ?commitsOf ?detailsOf
      = Success (backfill ?commitsOf ?detailsOf
                   (mergeContributors NotArray (listData ?listResponse)))"
    using fillDiffStats_failure_isolated [where statsData = NotArray
        and listResponse = ?listResponse and commitsOf = ?commitsOf and detailsOf = ?detailsOf]
    by blast
  moreover have "mergeContributors NotArray (listData ?listResponse) = ?cs"
    unfolding mergeContributors_def cm by simp
  ultimately have fetch: "fetchContributorStats NotArray ?listResponse ?commitsOf ?detailsOf
      = Success ?res"
    using all by simp
  have "backfill ?commitsOf' ?detailsOf ?cs ! 1 = backfill ?commitsOf ?detailsOf ?cs ! 1"
    using fillDiffStats_failure_isolated [where commitsOf' = ?commitsOf'
        and detailsOf' = ?detailsOf and commitsOf = ?commitsOf and detailsOf = ?detailsOf
        and cs = ?cs and i = 1]
    by simp
  then have indep: "backfill ?commitsOf' ?detailsOf ?cs ! 1 = ?dev"
    using one by simp
  show ?thesis
    by (intro conjI all caught none fetch indep)
qed

lemma contributorAt_append:
  "contributorAt h r = Some c \<Longrightarrow> contributorAt (h @ ext) r = Some c"
  by (auto simp: contributorAt_def lookup_def nth_append split: if_splits option.splits obj.splits)

lemma entryAt_append:
  "entryAt h p = Some e \<Longrightarrow> entryAt (h @ ext) p = Some e"
  by (auto simp: entryAt_def lookup_def nth_append split: if_splits option.splits obj.splits)

lemma upt_fresh: "n # [length (h @ [x]) ..< length (h @ [x]) + m] = [n ..< n + Suc m]"
  if "n = length h"
  using upt_conv_Cons [of n "n + Suc m"] that by (simp del: upt_Suc)

lemma mapProcess_wf:
  "map (contributorAt h) rs = map Some cs \<Longrightarrow>
     mapProcess cutoff rs h
       = Some ([length h ..< length h + length cs],
               h @ map (\<lambda>c. EntryObj (processOne cutoff c)) cs)"
proof (induction rs arbitrary: h cs)
  case Nil
  then show ?case by simp
next
  case (Cons r rs)
  then obtain c cs' where cs: "cs = c # cs'" and r: "contributorAt h r = Some c"
    and rs: "map (contributorAt h) rs = map Some cs'"
    by (cases cs) auto
  have look: "lookup h r = Some (ContributorObj c)"
    using r by (auto simp: contributorAt_def split: option.splits obj.splits)
  define h1 where "h1 = h @ [EntryObj (processOne cutoff c)]"
  have "map (contributorAt h1) rs = map Some cs'"
  proof (rule nth_equalityI)
    show "length (map (contributorAt h1) rs) = length (map Some cs')"
      using rs by (metis length_map)
    fix i assume "i < length (map (contributorAt h1) rs)"
    then have i: "i < length rs" by simp
    then have "contributorAt h (rs ! i) = Some (cs' ! i)"
      using rs by (metis length_map nth_map)
    then have "contributorAt h1 (rs ! i) = Some (cs' ! i)"
      unfolding h1_def by (rule contributorAt_append)
    moreover have "i < length cs'" using i rs by (metis length_map)
    ultimately show "map (contributorAt h1) rs ! i = map Some cs' ! i"
      using i by simp
  qed
  then have "mapProcess cutoff rs h1
      = Some ([length h1 ..< length h1 + length cs'],
              h1 @ map (\<lambda>c. EntryObj (processOne cutoff c)) cs')"
    by (rule Cons.IH)
  then show ?case
    using look upt_fresh [of "length h" h "EntryObj (processOne cutoff c)" "length cs'"]
    by (simp add: cs alloc_def h1_def del: upt_Suc)
qed

lemma mapProcess_frame:
  "mapProcess cutoff rs h = Some (ps, h1) \<Longrightarrow>
     \<exists>es. h1 = h @ map EntryObj es \<and> ps = [length h ..< length h + length es]"
proof (induction rs arbitrary: h ps h1)
  case Nil
  then show ?case by simp
next
  case (Cons r rs)
  from Cons.prems obtain c ps' where
    look: "lookup h r = Some (ContributorObj c)"
    and rec: "mapProcess cutoff rs (h @ [EntryObj (processOne cutoff c)]) = Some (ps', h1)"
    and ps: "ps = length h # ps'"
    by (auto simp: alloc_def split: option.splits obj.splits prod.splits)
  from Cons.IH [OF rec] obtain es where
    es: "h1 = (h @ [EntryObj (processOne cutoff c)]) @ map EntryObj es"
      "ps' = [length (h @ [EntryObj (processOne cutoff c)])
               ..< length (h @ [EntryObj (processOne cutoff c)]) + length es]"
    by blast
  have "h1 = h @ map EntryObj (processOne cutoff c # es)"
    using es(1) by simp
  moreover have "ps = [length h ..< length h + length (processOne cutoff c # es)]"
    using es(2) ps upt_fresh [of "length h" h "EntryObj (processOne cutoff c)" "length es"]
    by (simp del: upt_Suc)
  ultimately show ?case by blast
qed

lemma filterActive_wf:
  "\<forall>p \<in> set ps. entryAt h p = Some (f p) \<Longrightarrow>
     filterActive h ps = Some (filter (\<lambda>p. isActive (f p)) ps)"
proof (induction ps)
  case Nil
  then show ?case by simp
next
  case (Cons p ps)
  then have "entryAt h p = Some (f p)" by simp
  then have "lookup h p = Some (EntryObj (f p))"
    by (auto simp: entryAt_def split: option.splits obj.splits)
  then show ?case using Cons by simp
qed

lemma filterActive_subset: "filterActive h ps = Some qs \<Longrightarrow> set qs \<subseteq> set ps"
proof (induction ps arbitrary: qs)
  case Nil
  then show ?case by simp
next
  case (Cons p ps)
  then show ?case
    by (fastforce split: option.splits obj.splits if_splits)
qed

lemma set_insort_cmp: "set (insort_cmp cmp x ys) = insert x (set ys)"
  by (induction ys) auto

lemma set_array_sort: "set (array_sort cmp xs) = set xs"
  by (induction xs) (simp_all add: array_sort_def set_insort_cmp)

lemma distinct_insort_cmp: "distinct (insort_cmp cmp x ys) \<longleftrightarrow> x \<notin> set ys \<and> distinct ys"
  by (induction ys) (auto simp: set_insort_cmp)

lemma distinct_array_sort: "distinct xs \<Longrightarrow> distinct (array_sort cmp xs)"
proof (induction xs)
  case Nil
  then show ?case by (simp add: array_sort_def)
next
  case (Cons x xs)
  have "array_sort cmp (x # xs) = insort_cmp cmp x (array_sort cmp xs)"
    by (simp add: array_sort_def)
  then show ?case
    using Cons by (simp add: distinct_insort_cmp set_array_sort)
qed

lemma map_insort_cmp:
  assumes "\<forall>p \<in> set (x # ys). sc p = score (f p)"
  shows "map f (insort_cmp (\<lambda>a b. sc b - sc a) x ys) = insort_cmp byScore (f x) (map f ys)"
  using assms by (induction ys) (simp_all add: byScore_def)

lemma map_array_sort:
  assumes "\<forall>p \<in> set xs. sc p = score (f p)"
  shows "map f (array_sort (\<lambda>a b. sc b - sc a) xs) = array_sort byScore (map f xs)"
  using assms
proof (induction xs)
  case Nil
  then show ?case by (simp add: array_sort_def)
next
  case (Cons x xs)
  have unfold: "array_sort cmp (y # ys) = insort_cmp cmp y (array_sort cmp ys)" for cmp and y :: 'b and ys
    by (simp add: array_sort_def)
  have "\<forall>p \<in> set (x # array_sort (\<lambda>a b. sc b - sc a) xs). sc p = score (f p)"
    using Cons.prems by (simp add: set_array_sort)
  then have "map f (insort_cmp (\<lambda>a b. sc b - sc a) x (array_sort (\<lambda>a b. sc b - sc a) xs))
      = insort_cmp byScore (f x) (map f (array_sort (\<lambda>a b. sc b - sc a) xs))"
    by (rule map_insort_cmp)
  then show ?case
    using Cons by (simp add: unfold)
qed

lemma setRanks_frame:
  "setRanks k ps h = Some h' \<Longrightarrow>
     length h' = length h \<and> (\<forall>a. a \<notin> set ps \<longrightarrow> h' ! a = h ! a)"
proof (induction ps arbitrary: k h)
  case Nil
  then show ?case by simp
next
  case (Cons p ps)
  from Cons.prems obtain e where
    rec: "setRanks (k + 1) ps (h[p := EntryObj (e\<lparr>rank := Some (k + 1)\<rparr>)]) = Some h'"
    by (auto split: option.splits obj.splits)
  from Cons.IH [OF rec] show ?case by auto
qed

lemma entryAt_same:
  "length h' = length h \<Longrightarrow> h' ! a = h ! a \<Longrightarrow> entryAt h' a = entryAt h a"
  by (simp add: entryAt_def lookup_def)

lemma entryAt_lookup: "entryAt h p = Some e \<longleftrightarrow> lookup h p = Some (EntryObj e)"
  by (auto simp: entryAt_def split: option.splits obj.splits)

lemma setRanks_wf:
  assumes "distinct ps" and "\<forall>p \<in> set ps. entryAt h p = Some (f p)"
  shows "\<exists>h'. setRanks k ps h = Some h'
     \<and> map (entryAt h') ps
         = map Some (map (\<lambda>(index, c). c\<lparr>rank := Some (index + 1)\<rparr>) (enumerate k (map f ps)))"
  using assms
proof (induction ps arbitrary: k h)
  case Nil
  then show ?case by simp
next
  case (Cons p ps)
  define h1 where "h1 = h[p := EntryObj ((f p)\<lparr>rank := Some (k + 1)\<rparr>)]"
  have look: "lookup h p = Some (EntryObj (f p))"
    using Cons.prems(2) by (simp add: entryAt_lookup)
  then have p: "p < length h"
    by (simp add: lookup_def split: if_splits)
  have others: "\<forall>q \<in> set ps. entryAt h1 q = Some (f q)"
  proof
    fix q assume q: "q \<in> set ps"
    then have "q \<noteq> p" using Cons.prems(1) by auto
    then have "entryAt h1 q = entryAt h q"
      by (intro entryAt_same) (simp_all add: h1_def)
    then show "entryAt h1 q = Some (f q)" using Cons.prems(2) q by simp
  qed
  from Cons.IH [OF _ others, of "k + 1"] Cons.prems(1) obtain h' where
    run: "setRanks (k + 1) ps h1 = Some h'"
    and rest: "map (entryAt h') ps
      = map Some (map (\<lambda>(index, c). c\<lparr>rank := Some (index + 1)\<rparr>) (enumerate (k + 1) (map f ps)))"
    by auto
  have "length h' = length h1" "h' ! p = h1 ! p"
    using setRanks_frame [OF run] Cons.prems(1) by auto
  then have "entryAt h' p = entryAt h1 p"
    by (rule entryAt_same)
  also have "\<dots> = Some ((f p)\<lparr>rank := Some (k + 1)\<rparr>)"
    using p by (simp add: entryAt_def lookup_def h1_def)
  finally have first: "entryAt h' p = Some ((f p)\<lparr>rank := Some (k + 1)\<rparr>)" .
  have "setRanks k (p # ps) h = Some h'"
    using look run by (simp add: h1_def)
  then show ?case
    using first rest by simp
qed

lemma processContributors_store_frame:
  assumes "processContributors_store now contributors period h = Some (active, h')"
  shows "length h \<le> length h' \<and> take (length h) h' = h"
proof -
  from assms obtain rs ps h1 qs h5 where
    m: "mapProcess (cutoffTimestamp now period) rs h = Some (ps, h1)"
    and f: "filterActive (h1 @ [ArrayObj ps]) ps = Some qs"
    and r: "setRanks 0
        (array_sort (\<lambda>a b. scoreAt (h1 @ [ArrayObj ps] @ [ArrayObj qs]) b
                            - scoreAt (h1 @ [ArrayObj ps] @ [ArrayObj qs]) a) qs)
        ((h1 @ [ArrayObj ps] @ [ArrayObj qs])[Suc (length h1) := ArrayObj
          (array_sort (\<lambda>a b. scoreAt (h1 @ [ArrayObj ps] @ [ArrayObj qs]) b
                            - scoreAt (h1 @ [ArrayObj ps] @ [ArrayObj qs]) a) qs)])
        = Some h'"
    by (auto simp: processContributors_store_def alloc_def Let_def
        split: option.splits obj.splits prod.splits)
  define sorted where "sorted = array_sort (\<lambda>a b. scoreAt (h1 @ [ArrayObj ps] @ [ArrayObj qs]) b
                            - scoreAt (h1 @ [ArrayObj ps] @ [ArrayObj qs]) a) qs"
  define h4 where "h4 = (h1 @ [ArrayObj ps] @ [ArrayObj qs])[Suc (length h1) := ArrayObj sorted]"
  from mapProcess_frame [OF m] obtain es where
    h1: "h1 = h @ map EntryObj es" and ps: "ps = [length h ..< length h + length es]"
    by blast
  have fresh: "\<forall>p \<in> set sorted. length h \<le> p"
    using filterActive_subset [OF f] ps by (auto simp: sorted_def set_array_sort)
  have run: "setRanks 0 sorted h4 = Some h'"
    using r by (simp add: sorted_def h4_def)
  have len: "length h' = length h4" and same: "\<And>a. a \<notin> set sorted \<Longrightarrow> h' ! a = h4 ! a"
    using setRanks_frame [OF run] by auto
  have len4: "length h4 = length h + length es + 2"
    by (simp add: h4_def h1)
  have old: "h' ! a = h ! a" if "a < length h" for a
  proof -
    have "a \<notin> set sorted" using fresh that by auto
    then have "h' ! a = h4 ! a" by (rule same)
    also have "\<dots> = h ! a"
      using that by (simp add: h4_def h1 nth_append)
    finally show ?thesis .
  qed
  have "take (length h) h' = h"
    by (rule nth_equalityI) (simp_all add: len len4 old)
  then show ?thesis
    by (simp add: len len4)
qed

lemma map_filter_isActive:
  "map f (filter (\<lambda>p. isActive (f p)) ps) = filter isActive (map f ps)"
  by (induction ps) simp_all

lemma processContributors_store_wf:
  assumes arr: "lookup h contributors = Some (ArrayObj rs)"
    and cs: "map (contributorAt h) rs = map Some cs"
  shows "\<exists>active h' sorted.
     processContributors_store now contributors period h = Some (active, h')
     \<and> lookup h' active = Some (ArrayObj sorted)
     \<and> map (entryAt h') sorted = map Some (processContributors now cs period)"
proof -
  define cutoff where "cutoff = cutoffTimestamp now period"
  define es where "es = map (processOne cutoff) cs"
  define n where "n = length h"
  define ps where "ps = [n ..< n + length cs]"
  define h1 where "h1 = h @ map EntryObj es"
  define h2 where "h2 = h1 @ [ArrayObj ps]"
  define f where "f p = es ! (p - n)" for p
  define qs where "qs = filter (\<lambda>p. isActive (f p)) ps"
  define h3 where "h3 = h2 @ [ArrayObj qs]"
  define sorted where "sorted = array_sort (\<lambda>a b. scoreAt h3 b - scoreAt h3 a) qs"
  define h4 where "h4 = h3[Suc (length h1) := ArrayObj sorted]"
  have m: "mapProcess cutoff rs h = Some (ps, h1)"
    using mapProcess_wf [OF cs, of cutoff]
    by (simp add: ps_def h1_def es_def n_def comp_def)
  have len_es: "length es = length cs" by (simp add: es_def)
  have len1: "length h1 = n + length cs" by (simp add: h1_def n_def len_es)
  have at1: "entryAt h1 p = Some (f p)" if "p \<in> set ps" for p
  proof -
    have "n \<le> p" "p - n < length es" using that by (auto simp: ps_def len_es)
    then show ?thesis
      by (simp add: entryAt_def lookup_def h1_def n_def f_def nth_append)
  qed
  have at2: "\<forall>p \<in> set ps. entryAt h2 p = Some (f p)"
    unfolding h2_def using at1 by (auto intro: entryAt_append)
  have fa: "filterActive h2 ps = Some qs"
    unfolding qs_def using at2 by (rule filterActive_wf)
  have sub: "set sorted \<subseteq> set ps"
    by (auto simp: sorted_def set_array_sort qs_def)
  have at3: "entryAt h3 p = Some (f p)" if "p \<in> set ps" for p
    unfolding h3_def using at2 that by (auto intro: entryAt_append)
  have sc: "\<forall>p \<in> set qs. scoreAt h3 p = score (f p)"
  proof
    fix p assume "p \<in> set qs"
    then have "p \<in> set ps" by (simp add: qs_def)
    then have "lookup h3 p = Some (EntryObj (f p))"
      using at3 by (simp add: entryAt_lookup)
    then show "scoreAt h3 p = score (f p)" by (simp add: scoreAt_def)
  qed
  have map_ps: "map f ps = es"
    by (rule nth_equalityI) (simp_all add: ps_def f_def len_es)
  have sorted_es: "map f sorted = array_sort byScore (filter isActive es)"
    unfolding sorted_def using map_array_sort [OF sc]
    by (simp add: qs_def map_filter_isActive map_ps)
  have dist: "distinct sorted"
    unfolding sorted_def by (rule distinct_array_sort) (simp add: qs_def ps_def)
  have len3: "length h3 = n + length cs + 2"
    by (simp add: h3_def h2_def len1)
  have at4: "\<forall>p \<in> set sorted. entryAt h4 p = Some (f p)"
  proof
    fix p assume p: "p \<in> set sorted"
    then have pp: "p \<in> set ps" using sub by auto
    then have "p \<noteq> Suc (length h1)" by (simp add: ps_def len1)
    then have "entryAt h4 p = entryAt h3 p"
      by (intro entryAt_same) (simp_all add: h4_def)
    then show "entryAt h4 p = Some (f p)" using at3 [OF pp] by simp
  qed
  from setRanks_wf [OF dist at4, of 0] obtain h5 where
    run: "setRanks 0 sorted h4 = Some h5"
    and ranked: "map (entryAt h5) sorted
      = map Some (map (\<lambda>(index, c). c\<lparr>rank := Some (index + 1)\<rparr>) (enumerate 0 (map f sorted)))"
    by blast
  have res: "processContributors_store now contributors period h = Some (Suc (length h1), h5)"
    using arr m fa run
    unfolding cutoff_def h4_def sorted_def h3_def h2_def
    by (simp add: processContributors_store_def alloc_def Let_def)
  have "Suc (length h1) \<notin> set sorted"
    using sub by (auto simp: ps_def len1)
  then have "h5 ! Suc (length h1) = h4 ! Suc (length h1)" and len5: "length h5 = length h4"
    using setRanks_frame [OF run] by auto
  then have arr5: "lookup h5 (Suc (length h1)) = Some (ArrayObj sorted)"
    by (simp add: lookup_def h4_def len3 len1)
  have "map (entryAt h5) sorted = map Some (processContributors now cs period)"
    unfolding ranked sorted_es
    by (simp add: processContributors_def assignRanks_def activeEntries_def es_def cutoff_def)
  then show ?thesis
    using res arr5 by blast
qed

text \<open>
  Claim C9. \<^verbatim>\<open>processContributors\<close> does not modify its input. Every object that is in
  the store before the call, the array of contributors and every contributor record with
  all its fields among them, is the same after the call: the function writes only to the
  arrays and entries it has created (the sort in place and the ranks). On an array of
  contributor records the call returns the leaderboard of those records, and a second
  call on the store it leaves, for another time and period, returns the leaderboard of
  the same records.
\<close>

theorem processContributors_store_frame_rerun:
  "(processContributors_store now contributors period h = Some (active, h')
      \<longrightarrow> length h \<le> length h' \<and> take (length h) h' = h
          \<and> (\<forall>a<length h. lookup h' a = lookup h a))
   \<and> (lookup h contributors = Some (ArrayObj rs) \<and> map (contributorAt h) rs = map Some cs
      \<longrightarrow> (\<exists>active1 h1 sorted1.
            processContributors_store now contributors period h = Some (active1, h1)
            \<and> lookup h1 active1 = Some (ArrayObj sorted1)
            \<and> map (entryAt h1) sorted1 = map Some (processContributors now cs period)
            \<and> lookup h1 contributors = Some (ArrayObj rs)
            \<and> map (contributorAt h1) rs = map Some cs
            \<and> (\<exists>active2 h2 sorted2.
                  processContributors_store now2 contributors period2 h1 = Some (active2, h2)
                  \<and> lookup h2 active2 = Some (ArrayObj sorted2)
                  \<and> map (entryAt h2) sorted2
                      = map Some (processContributors now2 cs period2))))"
proof -
  have frame: "length h \<le> length h' \<and> take (length h) h' = h
      \<and> (\<forall>a<length h. lookup h' a = lookup h a)"
    if run: "processContributors_store now contributors period h = Some (active, h')"
    for now contributors period h active h'
  proof -
    have t: "length h \<le> length h'" "take (length h) h' = h"
      using processContributors_store_frame [OF run] by simp_all
    have "lookup h' a = lookup h a" if "a < length h" for a
    proof -
      have "take (length h) h' ! a = h' ! a" using that by simp
      then show ?thesis using that t by (simp add: lookup_def)
    qed
    then show ?thesis using t by blast
  qed
  have kept: "lookup h1 contributors = Some (ArrayObj rs) \<and> map (contributorAt h1) rs = map Some cs"
    if arr: "lookup h contributors = Some (ArrayObj rs)"
      and cs: "map (contributorAt h) rs = map Some cs"
      and same: "\<forall>a<length h. lookup h1 a = lookup h a"
    for h1
  proof -
    have c: "contributors < length h"
      using arr by (simp add: lookup_def split: if_splits)
    have "contributorAt h1 r = contributorAt h r" if r: "r \<in> set rs" for r
    proof -
      obtain i where i: "i < length rs" "rs ! i = r"
        using r by (auto simp: in_set_conv_nth)
      then have "map (contributorAt h) rs ! i = map Some cs ! i" using cs by simp
      moreover have "i < length cs" using i cs by (metis length_map)
      ultimately have "contributorAt h r = Some (cs ! i)" using i by simp
      then have "r < length h"
        by (auto simp: contributorAt_def lookup_def split: if_splits)
      then show ?thesis using same by (simp add: contributorAt_def)
    qed
    then have "map (contributorAt h1) rs = map (contributorAt h) rs"
      by (intro map_cong refl)
    then show ?thesis using arr cs c same by simp
  qed
  have rerun: "\<exists>active1 h1 sorted1.
            processContributors_store now contributors period h = Some (active1, h1)
            \<and> lookup h1 active1 = Some (ArrayObj sorted1)
            \<and> map (entryAt h1) sorted1 = map Some (processContributors now cs period)
            \<and> lookup h1 contributors = Some (ArrayObj rs)
            \<and> map (contributorAt h1) rs = map Some cs
            \<and> (\<exists>active2 h2 sorted2.
                  processContributors_store now2 contributors period2 h1 = Some (active2, h2)
                  \<and> lookup h2 active2 = Some (ArrayObj sorted2)
                  \<and> map (entryAt h2) sorted2
                      = map Some (processContributors now2 cs period2))"
    if arr: "lookup h contributors = Some (ArrayObj rs)"
      and cs: "map (contributorAt h) rs = map Some cs"
  proof -
    from processContributors_store_wf [OF arr cs, of now period] obtain active1 h1 sorted1 where
      run1: "processContributors_store now contributors period h = Some (active1, h1)"
      and res1: "lookup h1 active1 = Some (ArrayObj sorted1)"
        "map (entryAt h1) sorted1 = map Some (processContributors now cs period)"
      by blast
    have k: "lookup h1 contributors = Some (ArrayObj rs)" "map (contributorAt h1) rs = map Some cs"
      using kept [OF arr cs] frame [OF run1] by blast+
    from processContributors_store_wf [OF k, of now2 period2] obtain active2 h2 sorted2 where
      "processContributors_store now2 contributors period2 h1 = Some (active2, h2)"
      "lookup h2 active2 = Some (ArrayObj sorted2)"
      "map (entryAt h2) sorted2 = map Some (processContributors now2 cs period2)"
      by blast
    then show ?thesis using run1 res1 k by blast
  qed
  show ?thesis
    using frame [of now contributors period h active h'] rerun by blast
qed

theorem processContributors_store_frame_rerun_witness:
  "\<exists>h1. processContributors_store 0 2 ''all''
      [ContributorObj
         \<lparr>login = ''X'', avatar = [], profileUrl = [],
          weeks = [\<lparr>week_w = 0, week_a = 0, week_d = 0, week_c = 9\<rparr>], totalCommits = None\<rparr>,
       ContributorObj
         \<lparr>login = ''Y'', avatar = [], profileUrl = [],
          weeks = [\<lparr>week_w = 0, week_a = 0, week_d = 0, week_c = 99\<rparr>], totalCommits = None\<rparr>,
       ArrayObj [0, 1]]
       = Some (6, h1)
     \<and> take 3 h1 =
      [ContributorObj
         \<lparr>login = ''X'', avatar = [], profileUrl = [],
          weeks = [\<lparr>week_w = 0, week_a = 0, week_d = 0, week_c = 9\<rparr>], totalCommits = None\<rparr>,
       ContributorObj
         \<lparr>login = ''Y'', avatar = [], profileUrl = [],
          weeks = [\<lparr>week_w = 0, week_a = 0, week_d = 0, week_c = 99\<rparr>], totalCommits = None\<rparr>,
       ArrayObj [0, 1]]
     \<and> lookup h1 6 = Some (ArrayObj [4, 3])
     \<and> map (map_option (\<lambda>e. (entry_login e, rank e)) \<circ> entryAt h1) [4, 3]
         = [Some (''Y'', Some 1), Some (''X'', Some 2)]
     \<and> (\<exists>active2 h2 sorted2.
           processContributors_store 0 2 ''week'' h1 = Some (active2, h2)
           \<and> lookup h2 active2 = Some (ArrayObj sorted2)
           \<and> map (entryAt h2) sorted2
               = map Some (processContributors 0
                   [\<lparr>login = ''X'', avatar = [], profileUrl = [],
                      weeks = [\<lparr>week_w = 0, week_a = 0, week_d = 0, week_c = 9\<rparr>],
                      totalCommits = None\<rparr>,
                    \<lparr>login = ''Y'', avatar = [], profileUrl = [],
                      weeks = [\<lparr>week_w = 0, week_a = 0, week_d = 0, week_c = 99\<rparr>],
                      totalCommits = None\<rparr>]
                   ''week''))"
  (is "\<exists>h1. processContributors_store 0 2 ''all'' ?H = Some (6, h1) \<and> _")
proof -
  define x where "x = processOne 0
         \<lparr>login = ''X'', avatar = [], profileUrl = [],
          weeks = [\<lparr>week_w = 0, week_a = 0, week_d = 0, week_c = 9\<rparr>], totalCommits = None\<rparr>"
  define y where "y = processOne 0
         \<lparr>login = ''Y'', avatar = [], profileUrl = [],
          weeks = [\<lparr>week_w = 0, week_a = 0, week_d = 0, week_c = 99\<rparr>], totalCommits = None\<rparr>"
  have x: "isActive x" "score x = 40" "entry_login x = ''X''"
    by (simp_all add: x_def processOne_def isActive_def reduce_sum_def Let_def calculateScore_9_0_0)
  have y: "isActive y" "score y = 80" "entry_login y = ''Y''"
    by (simp_all add: y_def processOne_def isActive_def reduce_sum_def Let_def calculateScore_99_0_0)
  define H1 where "H1 = ?H @ [EntryObj (x\<lparr>rank := Some 2\<rparr>), EntryObj (y\<lparr>rank := Some 1\<rparr>),
      ArrayObj [3, 4], ArrayObj [4, 3]]"
  have run: "processContributors_store 0 2 ''all'' ?H = Some (6, H1)"
    using x y
    by (simp add: processContributors_store_def lookup_def alloc_def cutoffTimestamp_def
        getPeriodCutoff_def x_def [symmetric] y_def [symmetric] scoreAt_def array_sort_def
        H1_def Let_def)
  have "take (length ?H) H1 = ?H"
    using processContributors_store_frame_rerun [of 0 2 "''all''" ?H 6 H1] run by blast
  then have a: "take 3 H1 = ?H" by (simp add: numeral_3_eq_3)
  have b: "lookup H1 6 = Some (ArrayObj [4, 3])"
    by (simp add: H1_def lookup_def)
  have c: "map (map_option (\<lambda>e. (entry_login e, rank e)) \<circ> entryAt H1) [4, 3]
         = [Some (''Y'', Some 1), Some (''X'', Some 2)]"
    using x y by (simp add: H1_def entryAt_def lookup_def)
  let ?cs = "[\<lparr>login = ''X'', avatar = [], profileUrl = [],
                 weeks = [\<lparr>week_w = 0, week_a = 0, week_d = 0, week_c = 9\<rparr>],
                 totalCommits = None\<rparr>,
               \<lparr>login = ''Y'', avatar = [], profileUrl = [],
                 weeks = [\<lparr>week_w = 0, week_a = 0, week_d = 0, week_c = 99\<rparr>],
                 totalCommits = None\<rparr>]"
  have arr: "lookup ?H 2 = Some (ArrayObj [0, 1])"
    by (simp add: lookup_def)
  have cs: "map (contributorAt ?H) [0, 1] = map Some ?cs"
    by (simp add: contributorAt_def lookup_def)
  from processContributors_store_frame_rerun
    [where h = ?H and contributors = 2 and rs = "[0, 1]" and cs = ?cs and now = 0
      and period = "''all''" and ?now2.0 = 0 and ?period2.0 = "''week''"] arr cs
  obtain active1 h1 where
    run1: "processContributors_store 0 2 ''all'' ?H = Some (active1, h1)"
    and again: "\<exists>active2 h2 sorted2.
           processContributors_store 0 2 ''week'' h1 = Some (active2, h2)
           \<and> lookup h2 active2 = Some (ArrayObj sorted2)
           \<and> map (entryAt h2) sorted2 = map Some (processContributors 0 ?cs ''week'')"
    by blast
  have "h1 = H1" using run run1 by simp
  then have d: "\<exists>active2 h2 sorted2.
           processContributors_store 0 2 ''week'' H1 = Some (active2, h2)
           \<and> lookup h2 active2 = Some (ArrayObj sorted2)
           \<and> map (entryAt h2) sorted2 = map Some (processContributors 0 ?cs ''week'')"
    using again by simp
  show ?thesis
    by (intro exI [of _ H1] conjI run a b c d)
qed

end
